theory Spec2Isabelle
  imports Complex_Main "HOL-Library.Log_Nat"
begin

text \<open>
  The valuation and projection engine of the coin calculator: the parsing of the form
  fields, the validation and the present value in \<open>compute\<close>, the projection to a
  target date, and the exchange rate with its fallback. The two source files are
  modelled one after the other, on a model of the numbers, strings and dates of the
  language they are written in; the properties of the specification follow.
\<close>

section \<open>JavaScript numbers\<close>

text \<open>
  The calculator computes on JavaScript numbers, that is on IEEE 754 binary64 values.
  A number is NaN, an infinity with its sign, or a finite value given by its sign
  (\<open>True\<close> is negative) and its magnitude, a rational; both zeros exist.
  Every arithmetic operation computes the exact rational result and rounds it to the
  nearest binary64 value, ties to even, as the language specification prescribes.
\<close>

datatype number = NaN | Inf bool | Fin bool rat

text \<open>The integer part of the binary logarithm of a positive rational.\<close>

definition ilog2 :: "rat \<Rightarrow> int" where
  "ilog2 m =
     (let k = bitlen (fst (quotient_of m)) - bitlen (snd (quotient_of m))
      in if 2 powi k \<le> m then k else k - 1)"

text \<open>
  The exponent of the unit in the last place of the binary64 values around \<open>m\<close>:
  53 significant bits for normal values, the fixed exponent -1074 for subnormal ones.
\<close>

definition expo :: "rat \<Rightarrow> int" where
  "expo m = max (ilog2 m - 52) (- 1074)"

definition round_even :: "rat \<Rightarrow> int" where
  "round_even q =
     (let f = \<lfloor>q\<rfloor>; d = q - of_int f
      in if d < 1 / 2 then f
         else if 1 / 2 < d then f + 1
         else if even f then f else f + 1)"

definition rnd :: "rat \<Rightarrow> rat" where
  "rnd m = of_int (round_even (m / 2 powi expo m)) * 2 powi expo m"

text \<open>
  The Number value for a sign and an exact magnitude: a result that rounds to
  \<open>2 ^ 1024\<close> is infinite, and a result that rounds to zero keeps its sign.
\<close>

definition to_double :: "bool \<Rightarrow> rat \<Rightarrow> number" where
  "to_double sg m =
     (if m = 0 then Fin sg 0
      else let r = rnd m in if 2 ^ 1024 \<le> r then Inf sg else Fin sg r)"

definition signed :: "bool \<Rightarrow> rat \<Rightarrow> rat" where
  "signed sg m = (if sg then - m else m)"

text \<open>The number of an integer; it is exact below \<open>2 ^ 53\<close> in magnitude.\<close>

definition lit :: "int \<Rightarrow> number" where
  "lit n = Fin (n < 0) (of_int \<bar>n\<bar>)"

fun js_mul :: "number \<Rightarrow> number \<Rightarrow> number" where
  "js_mul NaN _ = NaN"
| "js_mul _ NaN = NaN"
| "js_mul (Inf a) (Inf b) = Inf (a \<noteq> b)"
| "js_mul (Inf a) (Fin b m) = (if m = 0 then NaN else Inf (a \<noteq> b))"
| "js_mul (Fin a m) (Inf b) = (if m = 0 then NaN else Inf (a \<noteq> b))"
| "js_mul (Fin a m) (Fin b n) = to_double (a \<noteq> b) (m * n)"

fun js_div :: "number \<Rightarrow> number \<Rightarrow> number" where
  "js_div NaN _ = NaN"
| "js_div _ NaN = NaN"
| "js_div (Inf a) (Inf b) = NaN"
| "js_div (Inf a) (Fin b m) = Inf (a \<noteq> b)"
| "js_div (Fin a m) (Inf b) = Fin (a \<noteq> b) 0"
| "js_div (Fin a m) (Fin b n) =
     (if n = 0 then (if m = 0 then NaN else Inf (a \<noteq> b))
      else to_double (a \<noteq> b) (m / n))"

fun js_add :: "number \<Rightarrow> number \<Rightarrow> number" where
  "js_add NaN _ = NaN"
| "js_add _ NaN = NaN"
| "js_add (Inf a) (Inf b) = (if a = b then Inf a else NaN)"
| "js_add (Inf a) (Fin b m) = Inf a"
| "js_add (Fin a m) (Inf b) = Inf b"
| "js_add (Fin a m) (Fin b n) =
     (let v = signed a m + signed b n
      in if v = 0 then Fin (a \<and> b) 0 else to_double (v < 0) \<bar>v\<bar>)"

fun js_neg :: "number \<Rightarrow> number" where
  "js_neg NaN = NaN"
| "js_neg (Inf a) = Inf (\<not> a)"
| "js_neg (Fin a m) = Fin (\<not> a) m"

definition js_sub :: "number \<Rightarrow> number \<Rightarrow> number" where
  "js_sub x y = js_add x (js_neg y)"

text \<open>\<open>Math.ceil\<close>: a value in \<open>(-1, 0)\<close> and the negative zero give the negative zero.\<close>

fun js_ceil :: "number \<Rightarrow> number" where
  "js_ceil NaN = NaN"
| "js_ceil (Inf a) = Inf a"
| "js_ceil (Fin a m) = (if a then Fin True (of_int \<lfloor>m\<rfloor>) else Fin False (of_int \<lceil>m\<rceil>))"

text \<open>The relational operators: every comparison with NaN is false, the zeros are equal.\<close>

fun js_lt :: "number \<Rightarrow> number \<Rightarrow> bool" where
  "js_lt NaN _ = False"
| "js_lt _ NaN = False"
| "js_lt (Inf a) (Inf b) = (a \<and> \<not> b)"
| "js_lt (Inf a) (Fin b m) = a"
| "js_lt (Fin a m) (Inf b) = (\<not> b)"
| "js_lt (Fin a m) (Fin b n) = (signed a m < signed b n)"

definition js_gt :: "number \<Rightarrow> number \<Rightarrow> bool" where
  "js_gt x y = js_lt y x"

fun js_eq :: "number \<Rightarrow> number \<Rightarrow> bool" where
  "js_eq NaN _ = False"
| "js_eq _ NaN = False"
| "js_eq (Inf a) (Inf b) = (a = b)"
| "js_eq (Inf a) (Fin b m) = False"
| "js_eq (Fin a m) (Inf b) = False"
| "js_eq (Fin a m) (Fin b n) = (signed a m = signed b n)"

definition js_le :: "number \<Rightarrow> number \<Rightarrow> bool" where
  "js_le x y = (js_lt x y \<or> js_eq x y)"

fun isNaN :: "number \<Rightarrow> bool" where
  "isNaN NaN = True"
| "isNaN _ = False"

fun isFinite :: "number \<Rightarrow> bool" where
  "isFinite (Fin _ _) = True"
| "isFinite _ = False"


text \<open>
  A binary64 value in this representation: a finite one has a non-negative magnitude
  that rounding leaves unchanged and that lies below \<open>2 ^ 1024\<close>.
\<close>

fun is_double :: "number \<Rightarrow> bool" where
  "is_double (Fin _ m) = (0 \<le> m \<and> (m = 0 \<or> (rnd m = m \<and> m < 2 ^ 1024)))"
| "is_double _ = True"

section \<open>JavaScript strings\<close>

text \<open>
  A string is its sequence of UTF-16 code units. \<open>js\<close> reads an ASCII literal.
\<close>

type_synonym jsstring = "int list"

definition js :: "string \<Rightarrow> jsstring" where
  "js s = map of_char s"

text \<open>White space and line terminators, the characters that \<open>trim\<close> and \<open>Number\<close> strip.\<close>

definition isStrWhiteSpaceChar :: "int \<Rightarrow> bool" where
  "isStrWhiteSpaceChar c =
     (c \<in> {0x9, 0xA, 0xB, 0xC, 0xD, 0x20, 0xA0, 0x1680, 0x2028, 0x2029, 0x202F, 0x205F,
            0x3000, 0xFEFF} \<or> (0x2000 \<le> c \<and> c \<le> 0x200A))"

definition trim :: "jsstring \<Rightarrow> jsstring" where
  "trim s = rev (dropWhile isStrWhiteSpaceChar (rev (dropWhile isStrWhiteSpaceChar s)))"

text \<open>\<open>v.replace(/,/g, "")\<close>\<close>

definition replaceCommas :: "jsstring \<Rightarrow> jsstring" where
  "replaceCommas v = filter (\<lambda>c. c \<noteq> 0x2C) v"

subsection \<open>\<open>Number(string)\<close>\<close>

definition isDecimalDigit :: "int \<Rightarrow> bool" where
  "isDecimalDigit c = (0x30 \<le> c \<and> c \<le> 0x39)"

definition digitValue :: "int \<Rightarrow> int option" where
  "digitValue c =
     (if 0x30 \<le> c \<and> c \<le> 0x39 then Some (c - 0x30)
      else if 0x61 \<le> c \<and> c \<le> 0x66 then Some (c - 0x57)
      else if 0x41 \<le> c \<and> c \<le> 0x46 then Some (c - 0x37)
      else None)"

fun digitsMV :: "int \<Rightarrow> int \<Rightarrow> jsstring \<Rightarrow> int option" where
  "digitsMV r acc [] = Some acc"
| "digitsMV r acc (c # cs) =
     (case digitValue c of
        None \<Rightarrow> None
      | Some d \<Rightarrow> if d < r then digitsMV r (acc * r + d) cs else None)"

text \<open>A non-empty run of digits of the radix, and nothing else, has a value.\<close>

definition Digits :: "int \<Rightarrow> jsstring \<Rightarrow> int option" where
  "Digits r ds = (if ds = [] then None else digitsMV r 0 ds)"

definition SignedInteger :: "jsstring \<Rightarrow> int option" where
  "SignedInteger t =
     (case t of
        [] \<Rightarrow> None
      | c # d \<Rightarrow>
          if c = 0x2B then Digits 10 d
          else if c = 0x2D then map_option uminus (Digits 10 d)
          else Digits 10 t)"

definition ExponentPart :: "jsstring \<Rightarrow> int option" where
  "ExponentPart r =
     (case r of
        [] \<Rightarrow> Some 0
      | c # t \<Rightarrow> if c = 0x65 \<or> c = 0x45 then SignedInteger t else None)"

text \<open>
  The mathematical value of an unsigned decimal literal: digits, an optional point and
  further digits, an optional exponent; at least one digit before the exponent.
\<close>

definition StrUnsignedDecimalLiteral :: "jsstring \<Rightarrow> rat option" where
  "StrUnsignedDecimalLiteral u =
     (let ip = takeWhile isDecimalDigit u;
          r1 = dropWhile isDecimalDigit u;
          dot = (r1 \<noteq> [] \<and> hd r1 = 0x2E);
          fp = (if dot then takeWhile isDecimalDigit (tl r1) else []);
          r2 = (if dot then dropWhile isDecimalDigit (tl r1) else r1)
      in if ip = [] \<and> fp = [] then None
         else case ExponentPart r2 of
                None \<Rightarrow> None
              | Some e \<Rightarrow>
                  (case Digits 10 (ip @ fp) of
                     None \<Rightarrow> None
                   | Some n \<Rightarrow> Some (of_int n * 10 powi (e - int (length fp)))))"

text \<open>Binary, octal and hexadecimal integer literals carry no sign.\<close>

definition NonDecimalIntegerLiteral :: "jsstring \<Rightarrow> int option" where
  "NonDecimalIntegerLiteral l =
     (case l of
        z # p # ds \<Rightarrow>
          if z \<noteq> 0x30 then None
          else if p = 0x78 \<or> p = 0x58 then Digits 16 ds
          else if p = 0x6F \<or> p = 0x4F then Digits 8 ds
          else if p = 0x62 \<or> p = 0x42 then Digits 2 ds
          else None
      | _ \<Rightarrow> None)"

text \<open>
  The conversion of a string to a number: the empty literal is zero, a literal outside
  the grammar is NaN, and the mathematical value of a literal is rounded. The language
  specification lets an engine round a literal of more than twenty significant digits
  from its first twenty; here, as in the engines, every literal is rounded exactly.
\<close>

definition Number :: "jsstring \<Rightarrow> number" where
  "Number str =
     (let l = trim str
      in if l = [] then lit 0
         else case NonDecimalIntegerLiteral l of
                Some n \<Rightarrow> to_double False (of_int n)
              | None \<Rightarrow>
                  (let neg = (hd l = 0x2D);
                       u = (if hd l = 0x2B \<or> hd l = 0x2D then tl l else l)
                   in if u = js ''Infinity'' then Inf neg
                      else case StrUnsignedDecimalLiteral u of
                             None \<Rightarrow> NaN
                           | Some mv \<Rightarrow> to_double neg mv))"

section \<open>Dates\<close>

text \<open>
  What the program takes from its surroundings: the time value of \<open>new Date()\<close> in
  milliseconds since the epoch, the offset of local time (the \<open>LocalTZA\<close> of the
  language specification, at a UTC time when the flag is set and at a local time
  otherwise), the result of date parsing on the strings whose parsing this theory
  does not define, and the decimal representation of the numbers whose representation
  this theory does not define.
\<close>

record env =
  now :: int
  LocalTZA :: "int \<Rightarrow> bool \<Rightarrow> int"
  implDateParse :: "jsstring \<Rightarrow> number"
  implNumberToString :: "number \<Rightarrow> jsstring"

definition Day :: "int \<Rightarrow> int" where
  "Day t = t div 86400000"

definition LocalTime :: "env \<Rightarrow> int \<Rightarrow> int" where
  "LocalTime e t = t + LocalTZA e t True"

definition UTC :: "env \<Rightarrow> int \<Rightarrow> int" where
  "UTC e t = t - LocalTZA e t False"

definition MakeTime :: "int \<Rightarrow> int \<Rightarrow> int \<Rightarrow> int \<Rightarrow> int" where
  "MakeTime h m s ms = h * 3600000 + m * 60000 + s * 1000 + ms"

definition MakeDate :: "int \<Rightarrow> int \<Rightarrow> int" where
  "MakeDate day time = day * 86400000 + time"

definition InLeapYear :: "int \<Rightarrow> bool" where
  "InLeapYear y = (y mod 4 = 0 \<and> (y mod 100 \<noteq> 0 \<or> y mod 400 = 0))"

definition DayFromYear :: "int \<Rightarrow> int" where
  "DayFromYear y =
     365 * (y - 1970) + (y - 1969) div 4 - (y - 1901) div 100 + (y - 1601) div 400"

definition DaysInMonth :: "int \<Rightarrow> int \<Rightarrow> int" where
  "DaysInMonth y m =
     (if m = 2 then (if InLeapYear y then 29 else 28)
      else if m \<in> {4, 6, 9, 11} then 30 else 31)"

text \<open>The day number of a calendar day; the month counts from 1.\<close>

definition MakeDay :: "int \<Rightarrow> int \<Rightarrow> int \<Rightarrow> int" where
  "MakeDay y m d = DayFromYear y + sum_list (map (DaysInMonth y) [1..m - 1]) + d - 1"

text \<open>
  \<open>TimeClip\<close>: a time value is an integral number of at most \<open>8.64e15\<close> in magnitude,
  and never the negative zero; anything else is NaN, the time value of an invalid date.
  A fraction is cut off towards zero.
\<close>

fun TimeClip :: "number \<Rightarrow> number" where
  "TimeClip (Fin sg m) =
     (if 8640000000000000 < \<bar>m\<bar> then NaN
      else Fin (sg \<and> \<lfloor>\<bar>m\<bar>\<rfloor> \<noteq> 0) (of_int \<lfloor>\<bar>m\<bar>\<rfloor>))"
| "TimeClip _ = NaN"

text \<open>
  The date-time form \<open>YYYY-MM-DDTHH:mm:ss\<close> without a time zone, which the language
  specification reads as local time. Only calendar days that exist are recognised.
\<close>

definition isoLocalDateTime :: "jsstring \<Rightarrow> (int \<times> int \<times> int \<times> int \<times> int \<times> int) option" where
  "isoLocalDateTime s =
     (if length s = 19 \<and> s ! 4 = 0x2D \<and> s ! 7 = 0x2D \<and> s ! 10 = 0x54
         \<and> s ! 13 = 0x3A \<and> s ! 16 = 0x3A
      then
        (case (Digits 10 (take 4 s), Digits 10 (take 2 (drop 5 s)),
               Digits 10 (take 2 (drop 8 s)), Digits 10 (take 2 (drop 11 s)),
               Digits 10 (take 2 (drop 14 s)), Digits 10 (take 2 (drop 17 s))) of
           (Some y, Some m, Some d, Some h, Some mi, Some sec) \<Rightarrow>
             if 1 \<le> m \<and> m \<le> 12 \<and> 1 \<le> d \<and> d \<le> DaysInMonth y m
                \<and> h \<le> 23 \<and> mi \<le> 59 \<and> sec \<le> 59
             then Some (y, m, d, h, mi, sec) else None
         | _ \<Rightarrow> None)
      else None)"

text \<open>
  \<open>new Date(s).getTime()\<close>: the clipped time value of the parsed string. A string in
  the form above is the local time it denotes; every other string is left to the
  surroundings.
\<close>

definition Date_getTime :: "env \<Rightarrow> jsstring \<Rightarrow> number" where
  "Date_getTime e s =
     (case isoLocalDateTime s of
        Some (y, m, d, h, mi, sec) \<Rightarrow>
          TimeClip (lit (UTC e (MakeDate (MakeDay y m d) (MakeTime h mi sec 0))))
      | None \<Rightarrow> TimeClip (implDateParse e s))"

text \<open>
  \<open>d.setHours(0, 0, 0, 0)\<close> on a date of time value \<open>t\<close>: the start of the local day
  of \<open>t\<close>, which is also the value returned.
\<close>

definition setHours0 :: "env \<Rightarrow> int \<Rightarrow> number" where
  "setHours0 e t = TimeClip (lit (UTC e (MakeDate (Day (LocalTime e t)) (MakeTime 0 0 0 0))))"

section \<open>The calculator of \<open>src/pages/index.tsx\<close>\<close>

text \<open>
  The \<open>Result\<close> type: the three projection fields are optional, an absent field is
  \<open>None\<close>.
\<close>

record Result =
  totalUSDT :: number
  totalIDR :: number
  projectedUSDT :: "number option"
  projectedIDR :: "number option"
  daysProjected :: "number option"

text \<open>The state cells of the component that the engine reads and writes.\<close>

record calc_state =
  pricePerCoin :: jsstring
  currentCoins :: jsstring
  dailyCoins :: jsstring
  endDate :: jsstring
  usdToIdr :: jsstring
  result :: "Result option"
  error :: jsstring
  isCalculating :: bool

definition parseNumber :: "jsstring \<Rightarrow> number" where
  "parseNumber v =
     (if v = [] then lit 0
      else let cleaned = trim (replaceCommas v);
               n = Number cleaned
           in if isFinite n then n else NaN)"

text \<open>
  The four messages that \<open>compute\<close> hands to \<open>setError\<close>, under the names the
  specification gives to the four validation failures.
\<close>

definition InvalidPrice :: jsstring where
  "InvalidPrice = js ''Masukkan harga per koin (USDT) yang valid.''"

definition InvalidHolding :: jsstring where
  "InvalidHolding = js ''Masukkan jumlah koin yang valid.''"

definition InvalidAccrual :: jsstring where
  "InvalidAccrual =
     js ''Masukkan jumlah koin harian yang valid (0 jika tidak ingin proyeksi).''"

definition InvalidRate :: jsstring where
  "InvalidRate = js ''Masukkan kurs USD'' @ [0x2192] @ js ''IDR yang valid (misal 15000).''"

text \<open>
  \<open>compute\<close> as a function from the state at the call to the state once it has
  returned; the pause before the inputs are read changes no state cell. The inputs are
  the strings of the render that created the closure.
\<close>

definition compute :: "env \<Rightarrow> calc_state \<Rightarrow> calc_state" where
  "compute e s0 =
     (let s = s0\<lparr>error := [], isCalculating := True\<rparr>;
          price = parseNumber (pricePerCoin s0);
          coins = parseNumber (currentCoins s0);
          daily = parseNumber (dailyCoins s0);
          rate = parseNumber (usdToIdr s0)
      in if isNaN price \<or> js_lt price (lit 0) then
           s\<lparr>isCalculating := False, error := InvalidPrice\<rparr>
         else if isNaN coins \<or> js_lt coins (lit 0) then
           s\<lparr>isCalculating := False, error := InvalidHolding\<rparr>
         else if isNaN daily \<or> js_lt daily (lit 0) then
           s\<lparr>isCalculating := False, error := InvalidAccrual\<rparr>
         else if isNaN rate \<or> js_le rate (lit 0) then
           s\<lparr>isCalculating := False, error := InvalidRate\<rparr>
         else
           let tUSDT = js_mul price coins;
               tIDR = js_mul tUSDT rate;
               res = \<lparr>totalUSDT = tUSDT, totalIDR = tIDR, projectedUSDT = None,
                      projectedIDR = None, daysProjected = None\<rparr>;
               res' =
                 (if js_gt daily (lit 0) \<and> endDate s0 \<noteq> [] then
                    let today = setHours0 e (now e);
                        endTime = Date_getTime e (endDate s0 @ js ''T00:00:00'');
                        msPerDay = js_mul (js_mul (js_mul (lit 1000) (lit 60)) (lit 60)) (lit 24);
                        diff = js_ceil (js_div (js_sub endTime today) msPerDay);
                        days = (if js_gt diff (lit 0) then diff else lit 0);
                        addedCoins = js_mul daily days;
                        projectedCoinsTotal = js_add coins addedCoins;
                        pUSDT = js_mul projectedCoinsTotal price;
                        pIDR = js_mul pUSDT rate
                    in res\<lparr>projectedUSDT := Some pUSDT, projectedIDR := Some pIDR,
                           daysProjected := Some days\<rparr>
                  else res)
           in s\<lparr>result := Some res', isCalculating := False\<rparr>)"

section \<open>The calculator of \<open>src/unnamed/part_000\<close>\<close>

text \<open>
  The second file has the state cells of the first and three more. Its functions carry
  the suffix \<open>_v2\<close> where the first file has one of the same name.
\<close>

record calc_state_v2 = calc_state +
  isLoadingRate :: bool
  isDarkMode :: bool
  isPerformanceMode :: bool

definition parseNumber_v2 :: "jsstring \<Rightarrow> number" where
  "parseNumber_v2 v =
     (if v = [] then lit 0
      else let cleaned = trim (replaceCommas v);
               n = Number cleaned
           in if isFinite n then n else NaN)"

text \<open>The memoised \<open>currentValues\<close>: price, coins, daily, rate.\<close>

definition currentValues :: "calc_state_v2 \<Rightarrow> number \<times> number \<times> number \<times> number" where
  "currentValues s =
     (parseNumber_v2 (pricePerCoin s), parseNumber_v2 (currentCoins s),
      parseNumber_v2 (dailyCoins s), parseNumber_v2 (usdToIdr s))"

definition compute_v2 :: "env \<Rightarrow> calc_state_v2 \<Rightarrow> calc_state_v2" where
  "compute_v2 e s0 =
     (let s = s0\<lparr>error := [], isCalculating := True\<rparr>
      in case currentValues s0 of (price, coins, daily, rate) \<Rightarrow>
         if isNaN price \<or> js_lt price (lit 0) then
           s\<lparr>isCalculating := False,
             error := js ''Masukkan harga per koin (USDT) yang valid.''\<rparr>
         else if isNaN coins \<or> js_lt coins (lit 0) then
           s\<lparr>isCalculating := False, error := js ''Masukkan jumlah koin yang valid.''\<rparr>
         else if isNaN daily \<or> js_lt daily (lit 0) then
           s\<lparr>isCalculating := False,
             error := js ''Masukkan jumlah koin harian yang valid (0 jika tidak ingin proyeksi).''\<rparr>
         else if isNaN rate \<or> js_le rate (lit 0) then
           s\<lparr>isCalculating := False,
             error := js ''Masukkan kurs USD'' @ [0x2192] @ js ''IDR yang valid (misal 15000).''\<rparr>
         else
           let tUSDT = js_mul price coins;
               tIDR = js_mul tUSDT rate;
               res = \<lparr>totalUSDT = tUSDT, totalIDR = tIDR, projectedUSDT = None,
                      projectedIDR = None, daysProjected = None\<rparr>;
               res' =
                 (if js_gt daily (lit 0) \<and> endDate s0 \<noteq> [] then
                    let today = setHours0 e (now e);
                        endTime = Date_getTime e (endDate s0 @ js ''T00:00:00'');
                        msPerDay = js_mul (js_mul (js_mul (lit 1000) (lit 60)) (lit 60)) (lit 24);
                        diff = js_ceil (js_div (js_sub endTime today) msPerDay);
                        days = (if js_gt diff (lit 0) then diff else lit 0);
                        addedCoins = js_mul daily days;
                        projectedCoinsTotal = js_add coins addedCoins;
                        pUSDT = js_mul projectedCoinsTotal price;
                        pIDR = js_mul pUSDT rate
                    in res\<lparr>projectedUSDT := Some pUSDT, projectedIDR := Some pIDR,
                           daysProjected := Some days\<rparr>
                  else res)
           in s\<lparr>result := Some res', isCalculating := False\<rparr>)"

text \<open>The pause of each \<open>compute\<close> in milliseconds, and the initial input cells.\<close>

definition compute_delay :: "calc_state \<Rightarrow> nat" where
  "compute_delay s = 800"

definition compute_delay_v2 :: "calc_state_v2 \<Rightarrow> nat" where
  "compute_delay_v2 s = (if isPerformanceMode s then 150 else 800)"

section \<open>The exchange rate of \<open>src/unnamed/part_000\<close>\<close>













section \<open>Notions of the specification\<close>

text \<open>A finite number that is at least zero, and one that is above zero.\<close>

definition finite_nonneg :: "number \<Rightarrow> bool" where
  "finite_nonneg x = (case x of Fin sg m \<Rightarrow> 0 \<le> signed sg m | _ \<Rightarrow> False)"

definition finite_pos :: "number \<Rightarrow> bool" where
  "finite_pos x = (case x of Fin sg m \<Rightarrow> 0 < signed sg m | _ \<Rightarrow> False)"

text \<open>The four parsed inputs pass validation.\<close>

definition inputs_valid :: "'a calc_state_scheme \<Rightarrow> bool" where
  "inputs_valid s =
     (finite_nonneg (parseNumber (pricePerCoin s)) \<and>
      finite_nonneg (parseNumber (currentCoins s)) \<and>
      finite_nonneg (parseNumber (dailyCoins s)) \<and>
      finite_pos (parseNumber (usdToIdr s)))"

text \<open>
  The larger of two numbers, as \<open>Math.max\<close> has it: NaN when either is NaN, and the
  positive zero is above the negative one.
\<close>

definition js_max :: "number \<Rightarrow> number \<Rightarrow> number" where
  "js_max x y =
     (if isNaN x \<or> isNaN y then NaN
      else if js_lt x y then y
      else if js_lt y x then x
      else (case (x, y) of
              (Fin a m, Fin b n) \<Rightarrow> Fin (a \<and> b) m
            | _ \<Rightarrow> x))"

text \<open>
  The projected days of the specification: the quotient of the difference of the two
  midnights by the milliseconds of a day, rounded up, and not below zero.
\<close>

definition spec_daysProjected :: "number \<Rightarrow> number \<Rightarrow> number" where
  "spec_daysProjected targetMidnight todayMidnight =
     js_max (js_ceil (js_div (js_sub targetMidnight todayMidnight) (lit 86400000))) (lit 0)"

text \<open>The projection fields of a result are there together or not at all.\<close>

definition projection_absent :: "Result \<Rightarrow> bool" where
  "projection_absent r =
     (projectedUSDT r = None \<and> projectedIDR r = None \<and> daysProjected r = None)"

definition projection_present :: "Result \<Rightarrow> bool" where
  "projection_present r =
     (projectedUSDT r \<noteq> None \<and> projectedIDR r \<noteq> None \<and> daysProjected r \<noteq> None)"

section \<open>Concrete surroundings and inputs\<close>

text \<open>
  A clock at 2026-11-02 13:13:20 in a zone seven hours ahead of UTC, where no string
  outside the date-time form parses as a date. The decimal representation of a number
  that is not an integer is not needed below; it is a question mark.
\<close>

definition example_env :: env where
  "example_env =
     \<lparr>now = 1793600000000, LocalTZA = (\<lambda>t u. 25200000), implDateParse = (\<lambda>s. NaN),
      implNumberToString = (\<lambda>x. js ''?'')\<rparr>"

text \<open>The form filled with a price, a holding, a daily accrual, a rate and a date.\<close>

definition form :: "string \<Rightarrow> string \<Rightarrow> string \<Rightarrow> string \<Rightarrow> string \<Rightarrow> calc_state" where
  "form p c d r dt =
     \<lparr>pricePerCoin = js p, currentCoins = js c, dailyCoins = js d, endDate = js dt,
      usdToIdr = js r, result = None, error = [], isCalculating = False\<rparr>"


section \<open>Rounding\<close>

lemma q_pos:
  "0 < m \<Longrightarrow>
   0 < fst (quotient_of m) \<and> 0 < snd (quotient_of m) \<and>
   m = of_int (fst (quotient_of m)) / of_int (snd (quotient_of m))"
  by (metis Fract_of_int_quotient Fract_quotient_of quotient_of_denom_pos'
    zero_less_Fract_iff)

lemma bitlen_rat_bounds:
  fixes x :: int assumes "0 < x"
  shows "(2::rat) powi (bitlen x - 1) \<le> of_int x" "of_int x < (2::rat) powi (bitlen x)"
proof -
  from bitlen_bounds[OF assms] have a: "2 ^ nat (bitlen x - 1) \<le> x" and b: "x < 2 ^ nat (bitlen x)" by auto
  have ge1: "1 \<le> bitlen x" using assms bitlen_eq_zero_iff[of x] bitlen_nonneg[of x] by linarith
  have "(of_int (2 ^ nat (bitlen x - 1)) :: rat) \<le> of_int x" using a by (simp only: of_int_le_iff)
  then show "(2::rat) powi (bitlen x - 1) \<le> of_int x" using ge1 by (simp add: power_int_def)
  have "(of_int x :: rat) < of_int (2 ^ nat (bitlen x))" using b by (simp only: of_int_less_iff)
  then show "of_int x < (2::rat) powi (bitlen x)" using ge1 by (simp add: power_int_def)
qed

lemma pow2_pos: "0 < (2::rat) powi k" by simp

lemma ilog2_bounds:
  assumes "0 < m"
  shows "2 powi ilog2 m \<le> m" "m < 2 powi (ilog2 m + 1)"
proof -
  define p where "p = fst (quotient_of m)"
  define q where "q = snd (quotient_of m)"
  from q_pos[OF assms] have p: "0 < p" and q: "0 < q" and m: "m = of_int p / of_int q"
    by (simp_all add: p_def q_def)
  define k where "k = bitlen p - bitlen q"
  have qr: "0 < (of_int q :: rat)" using q by simp
  have lo: "2 powi (k - 1) < m"
  proof -
    have "2 powi (k - 1) * of_int q < 2 powi (k - 1) * (2::rat) powi bitlen q"
      using bitlen_rat_bounds(2)[OF q] by simp
    also have "\<dots> = 2 powi (bitlen p - 1)" by (simp add: k_def flip: power_int_add)
    also have "\<dots> \<le> of_int p" using bitlen_rat_bounds(1)[OF p] .
    finally show ?thesis using qr by (simp add: m pos_less_divide_eq)
  qed
  have hi: "m < 2 powi (k + 1)"
  proof -
    have "of_int p < (2::rat) powi bitlen p" using bitlen_rat_bounds(2)[OF p] .
    also have "\<dots> = 2 powi (k + 1) * 2 powi (bitlen q - 1)" by (simp add: k_def flip: power_int_add)
    also have "\<dots> \<le> 2 powi (k + 1) * of_int q" using bitlen_rat_bounds(1)[OF q] by simp
    finally show ?thesis using qr by (simp add: m pos_divide_less_eq)
  qed
  have il: "ilog2 m = (if 2 powi k \<le> m then k else k - 1)"
    by (simp add: ilog2_def Let_def k_def p_def q_def)
  show "2 powi ilog2 m \<le> m" using lo by (simp add: il)
  show "m < 2 powi (ilog2 m + 1)" using hi by (simp add: il)
qed

lemma pow2_less_iff: "(2::rat) powi a < 2 powi b \<longleftrightarrow> a < b"
proof
  assume "(2::rat) powi a < 2 powi b"
  show "a < b"
  proof (rule ccontr)
    assume "\<not> a < b"
    then have "(2::rat) powi b \<le> 2 powi a" by (intro power_int_increasing) simp_all
    with \<open>(2::rat) powi a < 2 powi b\<close> show False by simp
  qed
next
  assume "a < b" then show "(2::rat) powi a < 2 powi b"
    by (intro power_int_strict_increasing) simp_all
qed

lemma pow2_mono_iff: "(2::rat) powi a \<le> 2 powi b \<longleftrightarrow> a \<le> b"
  using pow2_less_iff[of b a] by (simp add: not_less[symmetric])

lemma ilog2_unique:
  assumes "0 < m" "2 powi k \<le> m" "m < 2 powi (k + 1)"
  shows "ilog2 m = k"
proof -
  from ilog2_bounds[OF assms(1)] assms(2,3)
  have "(2::rat) powi ilog2 m < 2 powi (k + 1)" "(2::rat) powi k < 2 powi (ilog2 m + 1)" by linarith+
  then show ?thesis by (simp add: pow2_less_iff)
qed

lemma round_even_of_int: "round_even (of_int n) = n"
  by (simp add: round_even_def)

lemma round_even_le: "q \<le> of_int N \<Longrightarrow> round_even q \<le> N"
proof -
  assume a: "q \<le> of_int N"
  then have f: "\<lfloor>q\<rfloor> \<le> N" by (simp add: floor_le_iff) 
  show ?thesis
  proof (cases "\<lfloor>q\<rfloor> = N")
    case True
    then have "q - of_int \<lfloor>q\<rfloor> \<le> 0" using a by simp
    then show ?thesis using True by (simp add: round_even_def Let_def)
  next
    case False
    then have "\<lfloor>q\<rfloor> + 1 \<le> N" using f by simp
    then show ?thesis by (simp add: round_even_def Let_def)
  qed
qed

lemma round_even_ge: "of_int N \<le> q \<Longrightarrow> N \<le> round_even q"
proof -
  assume "of_int N \<le> q"
  then have "N \<le> \<lfloor>q\<rfloor>" by (simp add: le_floor_iff)
  then show ?thesis by (simp add: round_even_def Let_def)
qed

lemma expo_ge: "- 1074 \<le> expo m" by (simp add: expo_def)

lemma rnd_fixed:
  assumes "0 < m" "m / 2 powi expo m = of_int n"
  shows "rnd m = m"
proof -
  have "m = of_int n * 2 powi expo m" using assms(2) by (simp add: divide_eq_eq)
  then show ?thesis using assms(2) by (simp add: rnd_def round_even_of_int)
qed

lemma rnd_idem:
  assumes "0 < m"
  shows "rnd (rnd m) = rnd m"
proof -
  define e where "e = expo m"
  define n where "n = round_even (m / 2 powi e)"
  have r: "rnd m = of_int n * 2 powi e" by (simp add: rnd_def n_def e_def)
  have e74: "- 1074 \<le> e" by (simp add: e_def expo_ge)
  have "ilog2 m - 52 \<le> e" by (simp add: e_def expo_def)
  then have "ilog2 m + 1 \<le> e + 53" by simp
  then have "(2::rat) powi (ilog2 m + 1) \<le> 2 powi (e + 53)" by (simp add: pow2_mono_iff)
  with ilog2_bounds(2)[OF assms] have "m < 2 powi (e + 53)" by linarith
  then have "m / 2 powi e < 2 powi 53" by (simp add: power_int_add pos_divide_less_eq mult.commute)
  then have "m / 2 powi e \<le> of_int (2 ^ 53)" by simp
  then have nle: "n \<le> 2 ^ 53" unfolding n_def by (rule round_even_le)
  have "of_int 0 \<le> m / 2 powi e" using assms by simp
  then have n0: "0 \<le> n" unfolding n_def by (rule round_even_ge)
  show ?thesis
  proof (cases "n = 0")
    case True
    then have "rnd m = 0" by (simp add: r)
    then show ?thesis by (simp add: rnd_def round_even_def)
  next
    case False
    then have npos: "0 < n" using n0 by simp
    have rpos: "0 < rnd m" using npos by (simp add: r)
    define e' where "e' = expo (rnd m)"
    have "\<exists>k. rnd m / 2 powi e' = of_int k"
    proof (cases "n = 2 ^ 53")
      case True
      then have r2: "rnd m = 2 powi (e + 53)" by (simp add: r power_int_add mult.commute)
      have "ilog2 (rnd m) = e + 53"
        by (rule ilog2_unique) (simp_all add: r2 pow2_less_iff pow2_mono_iff)
      then have "e' = e + 1" using e74 by (simp add: e'_def expo_def)
      moreover have "(2::rat) powi (e + 1 + 52) = 2 powi (e + 1) * 2 powi 52"
        by (rule power_int_add) simp
      then have "(2::rat) powi (e + 53) = 2 powi (e + 1) * of_int (2 ^ 52)"
        by (simp add: add.assoc)
      ultimately have "rnd m / 2 powi e' = of_int (2 ^ 52)"
        by (simp only: r2 nonzero_mult_div_cancel_left[OF power_int_not_zero[OF disjI1]])
      then show ?thesis by blast
    next
      case False
      then have "n < 2 ^ 53" using nle by simp
      then have "(of_int n :: rat) < of_int (2 ^ 53)" by (simp only: of_int_less_iff)
      then have "(of_int n :: rat) < 2 powi 53" by simp
      then have "rnd m < 2 powi 53 * 2 powi e" by (simp add: r)
      then have "rnd m < 2 powi (e + 53)" by (simp add: power_int_add mult.commute)
      with ilog2_bounds(1)[OF rpos] have "(2::rat) powi ilog2 (rnd m) < 2 powi (e + 53)" by linarith
      then have "ilog2 (rnd m) < e + 53" by (simp add: pow2_less_iff)
      then have le: "e' \<le> e" using e74 by (simp add: e'_def expo_def)
      have "rnd m / 2 powi e' = of_int n * 2 powi (e - e')"
        by (simp add: r power_int_diff)
      also have "\<dots> = of_int (n * 2 ^ nat (e - e'))" using le by (simp add: power_int_def)
      finally show ?thesis by blast
    qed
    then obtain k where "rnd m / 2 powi expo (rnd m) = of_int k" unfolding e'_def by blast
    from rnd_fixed[OF rpos this] show ?thesis .
  qed
qed

lemma rnd_nonneg: "0 \<le> m \<Longrightarrow> 0 \<le> rnd m"
proof -
  assume "0 \<le> m"
  then have "of_int 0 \<le> m / 2 powi expo m" by simp
  then have "0 \<le> round_even (m / 2 powi expo m)" by (rule round_even_ge)
  then show ?thesis by (simp add: rnd_def)
qed

lemma rnd_le_pow2:
  assumes "0 < m" "m \<le> 2 powi k" "- 1074 \<le> k"
  shows "rnd m \<le> 2 powi k"
proof -
  define e where "e = expo m"
  from ilog2_bounds(1)[OF assms(1)] assms(2) have "(2::rat) powi ilog2 m \<le> 2 powi k" by linarith
  then have "ilog2 m \<le> k" by (simp add: pow2_mono_iff)
  then have le: "e \<le> k" using assms(3) by (simp add: e_def expo_def)
  have split: "(2::rat) powi k = 2 powi (k - e) * 2 powi e"
    by (simp flip: power_int_add)
  have "m / 2 powi e \<le> 2 powi (k - e)"
    using assms(2) by (simp add: pos_divide_le_eq flip: power_int_add)
  also have "\<dots> = of_int (2 ^ nat (k - e))" using le by (simp add: power_int_def)
  finally have "round_even (m / 2 powi e) \<le> 2 ^ nat (k - e)" by (rule round_even_le)
  then have "(of_int (round_even (m / 2 powi e)) :: rat) \<le> of_int (2 ^ nat (k - e))"
    by (simp only: of_int_le_iff)
  also have "(of_int (2 ^ nat (k - e)) :: rat) = 2 powi (k - e)" using le by (simp add: power_int_def)
  finally have "of_int (round_even (m / 2 powi e)) * 2 powi e \<le> 2 powi (k - e) * (2::rat) powi e"
    by (simp only: mult_le_cancel_right_pos[OF pow2_pos])
  then show ?thesis by (simp only: rnd_def e_def[symmetric] split[symmetric])
qed

lemma is_double_to_double: "0 \<le> m \<Longrightarrow> is_double (to_double sg m)"
  using rnd_idem[of m] rnd_nonneg[of m] by (auto simp: to_double_def Let_def not_le)

lemma to_double_fixed: "is_double (Fin sg m) \<Longrightarrow> to_double sg' m = Fin sg' m"
  by (auto simp: to_double_def Let_def)

lemma to_double_finite:
  assumes "0 \<le> m" "m \<le> 2 powi k" "- 1074 \<le> k" "k < 1024"
  shows "\<exists>r. to_double sg m = Fin sg r \<and> 0 \<le> r \<and> r \<le> 2 powi k"
proof (cases "m = 0")
  case True then show ?thesis by (simp add: to_double_def)
next
  case False
  then have "0 < m" using assms(1) by simp
  from rnd_le_pow2[OF this assms(2,3)] have a: "rnd m \<le> 2 powi k" .
  have "(2::rat) powi k < 2 powi 1024" using assms(4) by (simp only: pow2_less_iff)
  then have "rnd m < 2 ^ 1024" using a by simp
  then show ?thesis using a rnd_nonneg[OF assms(1)] False by (simp add: to_double_def Let_def)
qed


lemma to_double_int:
  assumes "0 \<le> n" "n < 2 ^ 53"
  shows "to_double sg (of_int n) = Fin sg (of_int n)"
proof (cases "n = 0")
  case True then show ?thesis by (simp add: to_double_def)
next
  case False
  define m :: rat where "m = of_int n"
  have mpos: "0 < m" using assms(1) False by (simp add: m_def)
  have "m < of_int (2 ^ 53)" using assms(2) unfolding m_def by (simp only: of_int_less_iff)
  then have m53: "m < 2 powi 53" by simp
  with ilog2_bounds(1)[OF mpos] have "(2::rat) powi ilog2 m < 2 powi 53" by linarith
  then have "ilog2 m < 53" by (simp only: pow2_less_iff)
  then have e0: "expo m \<le> 0" by (simp add: expo_def)
  have "m / 2 powi expo m = of_int n * 2 powi (- expo m)"
    by (simp add: m_def power_int_minus field_simps)
  also have "\<dots> = of_int (n * 2 ^ nat (- expo m))" using e0 by (simp add: power_int_def)
  finally have "rnd m = m" by (rule rnd_fixed[OF mpos])
  moreover have "(2::rat) powi 53 < 2 powi 1024" by (simp only: pow2_less_iff)
  then have "m < 2 ^ 1024" using m53 by simp
  ultimately show ?thesis using mpos by (simp add: to_double_def m_def[symmetric] Let_def)
qed

lemma to_double_numeral [simp]:
  "numeral k < (2::int) ^ 53 \<Longrightarrow> to_double sg (numeral k) = Fin sg (numeral k)"
  using to_double_int[of "numeral k" sg] by simp

lemma to_double_one [simp]: "to_double sg 1 = Fin sg 1"
  using to_double_int[of 1 sg] by simp

lemma digitValue_nonneg: "digitValue c = Some d \<Longrightarrow> 0 \<le> d"
  by (auto simp: digitValue_def split: if_splits)

lemma digitsMV_nonneg: "digitsMV r acc ds = Some n \<Longrightarrow> 0 \<le> acc \<Longrightarrow> 0 \<le> n"
proof (induction ds arbitrary: acc)
  case Nil
  then show ?case by simp
next
  case (Cons c cs)
  from Cons.prems(1) obtain d where d: "digitValue c = Some d" "d < r"
    and rest: "digitsMV r (acc * r + d) cs = Some n"
    by (auto split: option.splits if_splits)
  from digitValue_nonneg[OF d(1)] d(2) Cons.prems(2) have "0 \<le> acc * r + d" by simp
  from Cons.IH[OF rest this] show ?case .
qed

lemma Digits_nonneg: "Digits r ds = Some n \<Longrightarrow> 0 \<le> n"
  using digitsMV_nonneg[of r 0 ds n] by (simp add: Digits_def split: if_splits)

lemma StrUnsignedDecimalLiteral_nonneg:
  assumes "StrUnsignedDecimalLiteral u = Some mv"
  shows "0 \<le> mv"
  using assms unfolding StrUnsignedDecimalLiteral_def Let_def
  by (auto split: option.splits if_splits dest: Digits_nonneg)

lemma NonDecimalIntegerLiteral_nonneg: "NonDecimalIntegerLiteral l = Some n \<Longrightarrow> 0 \<le> n"
  unfolding NonDecimalIntegerLiteral_def
  by (simp split: list.splits if_splits add: Digits_nonneg)

lemma is_double_Number: "is_double (Number str)"
proof -
  define l where "l = trim str"
  show ?thesis
  proof (cases "l = []")
    case True then show ?thesis by (simp add: Number_def l_def[symmetric] lit_def)
  next
    case ne: False
    show ?thesis
    proof (cases "NonDecimalIntegerLiteral l")
      case (Some n)
      then show ?thesis using ne NonDecimalIntegerLiteral_nonneg[OF Some]
        by (simp add: Number_def l_def[symmetric] is_double_to_double)
    next
      case None
      show ?thesis using ne None
        by (simp add: Number_def l_def[symmetric] Let_def is_double_to_double
            StrUnsignedDecimalLiteral_nonneg split: option.splits)
    qed
  qed
qed

lemma parseNumber_cases:
  "parseNumber v = NaN \<or> (\<exists>sg m. parseNumber v = Fin sg m \<and> is_double (Fin sg m))"
proof (cases "v = []")
  case True then show ?thesis by (auto simp: parseNumber_def lit_def)
next
  case False
  show ?thesis
  proof (cases "Number (trim (replaceCommas v))")
    case (Fin sg m)
    with is_double_Number[of "trim (replaceCommas v)"] False show ?thesis
      by (simp add: parseNumber_def)
  qed (use False in \<open>simp_all add: parseNumber_def\<close>)
qed

section \<open>Evaluation on concrete inputs\<close>

lemmas parse_eval =
  parseNumber_def js_def trim_def replaceCommas_def isStrWhiteSpaceChar_def Number_def
  NonDecimalIntegerLiteral_def StrUnsignedDecimalLiteral_def isDecimalDigit_def
  ExponentPart_def SignedInteger_def Digits_def digitValue_def lit_def Let_def

lemma parse_abc: "parseNumber (js ''abc'') = NaN"
  by (simp add: parse_eval)

lemma parse_empty: "parseNumber (js []) = lit 0"
  by (simp add: parse_eval)

lemma parse_0: "parseNumber (js ''0'') = lit 0"
  by (simp add: parse_eval to_double_def)

lemma parse_1: "parseNumber (js ''1'') = lit 1"
  by (simp add: parse_eval)

lemma parse_2: "parseNumber (js ''2'') = lit 2"
  by (simp add: parse_eval)

lemma parse_3: "parseNumber (js ''3'') = lit 3"
  by (simp add: parse_eval)

lemma parse_neg5: "parseNumber (js ''-5'') = lit (- 5)"
  by (simp add: parse_eval)

lemma parse_1000: "parseNumber (js ''1000'') = lit 1000"
  by (simp add: parse_eval)

lemma parse_15000: "parseNumber (js ''15000'') = lit 15000"
  by (simp add: parse_eval)

text \<open>
  The rounding of a magnitude whose binary exponent and rounded significand are given;
  with it, \<open>0.48\<close> is the binary64 value next to it, and that value times 1000 is
  480.
\<close>

lemma round_even_down:
  assumes "of_int f \<le> q" "q - of_int f < 1 / 2"
  shows "round_even q = f"
proof -
  have "\<lfloor>q\<rfloor> = f" using assms by (simp add: floor_eq_iff)
  then show ?thesis using assms(2) by (simp add: round_even_def)
qed

lemma round_even_up:
  assumes "q < of_int f + 1" "1 / 2 < q - of_int f"
  shows "round_even q = f + 1"
proof -
  have "\<lfloor>q\<rfloor> = f" using assms by (simp add: floor_eq_iff)
  then show ?thesis using assms(2) by (simp add: round_even_def)
qed

lemma to_double_at:
  assumes "0 < m" "2 powi k \<le> m" "m < 2 powi (k + 1)"
    and "round_even (m / 2 powi (max (k - 52) (- 1074))) = n"
    and "of_int n * 2 powi (max (k - 52) (- 1074)) < (2::rat) ^ 1024"
  shows "to_double sg m = Fin sg (of_int n * 2 powi (max (k - 52) (- 1074)))"
proof -
  have "ilog2 m = k" using assms(1-3) by (rule ilog2_unique)
  then have "rnd m = of_int n * 2 powi (max (k - 52) (- 1074))"
    using assms(4) by (simp add: rnd_def expo_def)
  then show ?thesis using assms(1,5) by (simp add: to_double_def Let_def)
qed

lemma parse_048: "parseNumber (js ''0.48'') = Fin False (1080863910568919 / 2251799813685248)"
proof -
  have "round_even (12 / 25 / 2 powi (max (- 2 - 52) (- 1074))) = 8646911284551352"
    by (rule round_even_down) simp_all
  then have "to_double False (12 / 25) =
             Fin False (of_int 8646911284551352 * 2 powi (max (- 2 - 52) (- 1074)))"
    by (intro to_double_at) simp_all
  then have "to_double False (12 / 25) = Fin False (1080863910568919 / 2251799813685248)"
    by simp
  then show ?thesis by (simp add: parse_eval)
qed

lemma mul_048_1000:
  "js_mul (Fin False (1080863910568919 / 2251799813685248)) (lit 1000) = lit 480"
proof -
  have "round_even (1080863910568919 / 2251799813685248 * 1000 / 2 powi (max (8 - 52) (- 1074))) =
        8444249301319679 + 1"
    by (rule round_even_up) simp_all
  then have "to_double False (1080863910568919 / 2251799813685248 * 1000) =
        Fin False (of_int (8444249301319679 + 1) * 2 powi (max (8 - 52) (- 1074)))"
    by (intro to_double_at) simp_all
  then show ?thesis by (simp add: lit_def)
qed

lemmas spec_eval =
  inputs_valid_def finite_nonneg_def finite_pos_def signed_def form_def lit_def
  parse_abc parse_empty parse_0 parse_1 parse_2 parse_3 parse_neg5 parse_1000 parse_15000
  parse_048

section \<open>Validation\<close>

lemma msgs_ne:
  "InvalidPrice \<noteq> []" "InvalidHolding \<noteq> []" "InvalidAccrual \<noteq> []" "InvalidRate \<noteq> []"
  by (simp_all add: InvalidPrice_def InvalidHolding_def InvalidAccrual_def InvalidRate_def js_def)

lemma msgs_distinct:
  "InvalidPrice \<noteq> InvalidHolding" "InvalidPrice \<noteq> InvalidAccrual"
  "InvalidPrice \<noteq> InvalidRate" "InvalidHolding \<noteq> InvalidPrice"
  "InvalidHolding \<noteq> InvalidAccrual" "InvalidHolding \<noteq> InvalidRate"
  "InvalidAccrual \<noteq> InvalidPrice" "InvalidAccrual \<noteq> InvalidHolding"
  "InvalidAccrual \<noteq> InvalidRate" "InvalidRate \<noteq> InvalidPrice"
  "InvalidRate \<noteq> InvalidHolding" "InvalidRate \<noteq> InvalidAccrual"
  by (simp_all add: InvalidPrice_def InvalidHolding_def InvalidAccrual_def InvalidRate_def js_def)

text \<open>
  A parsed input is NaN or finite, so each check of \<open>compute\<close> fails exactly on the
  inputs that are not finite numbers of the required sign.
\<close>

lemma check_nonneg:
  "(isNaN (parseNumber v) \<or> js_lt (parseNumber v) (lit 0)) = (\<not> finite_nonneg (parseNumber v))"
  using parseNumber_cases[of v]
  by (auto simp: finite_nonneg_def lit_def signed_def split: if_splits)

lemma check_pos:
  "(isNaN (parseNumber v) \<or> js_le (parseNumber v) (lit 0)) = (\<not> finite_pos (parseNumber v))"
  using parseNumber_cases[of v]
  by (auto simp: finite_pos_def lit_def signed_def js_le_def split: if_splits)

lemma compute_error:
  "error (compute e s) =
     (if \<not> finite_nonneg (parseNumber (pricePerCoin s)) then InvalidPrice
      else if \<not> finite_nonneg (parseNumber (currentCoins s)) then InvalidHolding
      else if \<not> finite_nonneg (parseNumber (dailyCoins s)) then InvalidAccrual
      else if \<not> finite_pos (parseNumber (usdToIdr s)) then InvalidRate
      else [])"
  unfolding compute_def Let_def check_nonneg check_pos by simp

lemma compute_invalid:
  "\<not> inputs_valid s \<Longrightarrow>
   compute e s = s\<lparr>error := error (compute e s), isCalculating := False\<rparr>"
  unfolding compute_def Let_def check_nonneg check_pos inputs_valid_def by auto

lemma compute_invalid_result: "\<not> inputs_valid s \<Longrightarrow> result (compute e s) = result s"
proof -
  assume "\<not> inputs_valid s"
  from compute_invalid[OF this, of e]
  have "result (compute e s) =
        result (s\<lparr>error := error (compute e s), isCalculating := False\<rparr>)"
    by simp
  then show ?thesis by simp
qed

text \<open>
  C1: the four parsed inputs are checked in the order price, holding, daily accrual,
  rate, and the first failing check gives the message: the price message exactly when
  the price is not a finite number at least zero, the holding message exactly when the
  price passes and the holding does not, and so on to the rate, which must be above
  zero. No message is set exactly when all four pass, and a failed check leaves the
  stored result as it was.
\<close>

theorem compute_validation_order:
  "(error (compute e s) = InvalidPrice \<longleftrightarrow>
      \<not> finite_nonneg (parseNumber (pricePerCoin s))) \<and>
   (error (compute e s) = InvalidHolding \<longleftrightarrow>
      finite_nonneg (parseNumber (pricePerCoin s)) \<and>
      \<not> finite_nonneg (parseNumber (currentCoins s))) \<and>
   (error (compute e s) = InvalidAccrual \<longleftrightarrow>
      finite_nonneg (parseNumber (pricePerCoin s)) \<and>
      finite_nonneg (parseNumber (currentCoins s)) \<and>
      \<not> finite_nonneg (parseNumber (dailyCoins s))) \<and>
   (error (compute e s) = InvalidRate \<longleftrightarrow>
      finite_nonneg (parseNumber (pricePerCoin s)) \<and>
      finite_nonneg (parseNumber (currentCoins s)) \<and>
      finite_nonneg (parseNumber (dailyCoins s)) \<and>
      \<not> finite_pos (parseNumber (usdToIdr s))) \<and>
   (error (compute e s) = [] \<longleftrightarrow> inputs_valid s) \<and>
   (\<not> inputs_valid s \<longrightarrow> result (compute e s) = result s)"
  using msgs_ne msgs_distinct compute_invalid_result[of s e]
  by (simp add: compute_error inputs_valid_def)

text \<open>
  An unreadable price with a negative holding reports the price; a rate of zero with
  three good inputs reports the rate and stores no result.
\<close>

theorem compute_validation_order_witness:
  "\<not> inputs_valid (form ''abc'' ''-5'' ''0'' ''15000'' []) \<and>
   error (compute example_env (form ''abc'' ''-5'' ''0'' ''15000'' [])) = InvalidPrice \<and>
   \<not> inputs_valid (form ''1'' ''1'' ''0'' ''0'' []) \<and>
   error (compute example_env (form ''1'' ''1'' ''0'' ''0'' [])) = InvalidRate \<and>
   result (compute example_env (form ''1'' ''1'' ''0'' ''0'' [])) = None"
  using compute_validation_order[of example_env "form ''abc'' ''-5'' ''0'' ''15000'' []"]
    compute_validation_order[of example_env "form ''1'' ''1'' ''0'' ''0'' []"]
  by (simp add: spec_eval)

section \<open>Present value\<close>

text \<open>
  C2: when the four inputs pass validation, the stored result has the base total
  \<open>price * holding\<close> and the fiat total \<open>base total * rate\<close>, each one binary64
  multiplication of the parsed inputs.
\<close>

theorem compute_totals:
  assumes "inputs_valid s"
  shows "\<exists>r. result (compute e s) = Some r \<and>
             totalUSDT r = js_mul (parseNumber (pricePerCoin s)) (parseNumber (currentCoins s)) \<and>
             totalIDR r = js_mul (totalUSDT r) (parseNumber (usdToIdr s))"
  using assms unfolding compute_def Let_def check_nonneg check_pos inputs_valid_def
  by simp

text \<open>
  The first scenario of the specification: 1000 coins at 0.48 are 480, and 7200000 at
  the rate 15000.
\<close>

theorem compute_totals_witness:
  "inputs_valid (form ''0.48'' ''1000'' ''0'' ''15000'' []) \<and>
   (\<exists>r. result (compute example_env (form ''0.48'' ''1000'' ''0'' ''15000'' [])) = Some r \<and>
        totalUSDT r = lit 480 \<and> totalIDR r = lit 7200000)"
proof -
  have v: "inputs_valid (form ''0.48'' ''1000'' ''0'' ''15000'' [])"
    by (simp add: spec_eval)
  have m: "js_mul (parseNumber (js ''0.48'')) (parseNumber (js ''1000'')) = lit 480"
    unfolding parse_048 parse_1000 by (rule mul_048_1000)
  from compute_totals[OF v, of example_env] show ?thesis
    using v by (auto simp: form_def m parse_15000) (simp add: lit_def)
qed

section \<open>The projection fields as a group\<close>

text \<open>
  C7: the result of a successful \<open>compute\<close> has all three projection fields or none
  of them.
\<close>

theorem projection_grouped:
  assumes "inputs_valid s"
  shows "\<exists>r. result (compute e s) = Some r \<and> (projection_absent r \<or> projection_present r)"
  using assms unfolding compute_def Let_def check_nonneg check_pos inputs_valid_def
  by (simp add: projection_absent_def projection_present_def)

theorem projection_grouped_witness:
  "inputs_valid (form ''2'' ''1000'' ''0'' ''15000'' []) \<and>
   (\<exists>r. result (compute example_env (form ''2'' ''1000'' ''0'' ''15000'' [])) = Some r \<and>
        (projection_absent r \<or> projection_present r))"
proof -
  have v: "inputs_valid (form ''2'' ''1000'' ''0'' ''15000'' [])"
    by (simp add: spec_eval)
  from projection_grouped[OF v, of example_env] show ?thesis
    using v by simp
qed

section \<open>Validation failures\<close>

text \<open>
  C8: a failed validation check ends \<open>compute\<close> with one of the four messages in the
  error cell, never the empty message; the stored result is the one from before, and
  nothing but the error cell and the busy flag differs from the state at the call.
\<close>

theorem validation_failure_reported:
  assumes "\<not> inputs_valid s"
  shows "error (compute e s) \<in> {InvalidPrice, InvalidHolding, InvalidAccrual, InvalidRate} \<and>
         error (compute e s) \<noteq> [] \<and>
         result (compute e s) = result s \<and>
         compute e s = s\<lparr>error := error (compute e s), isCalculating := False\<rparr>"
proof -
  have "error (compute e s) \<in> {InvalidPrice, InvalidHolding, InvalidAccrual, InvalidRate}"
    using assms by (auto simp: compute_error inputs_valid_def)
  then show ?thesis
    using msgs_ne compute_invalid[OF assms, of e] compute_invalid_result[OF assms, of e]
    by auto
qed

theorem validation_failure_reported_witness:
  "\<not> inputs_valid (form ''1'' ''-5'' ''0'' ''15000'' []) \<and>
   error (compute example_env (form ''1'' ''-5'' ''0'' ''15000'' [])) = InvalidHolding \<and>
   result (compute example_env (form ''1'' ''-5'' ''0'' ''15000'' [])) = None"
proof -
  have v: "\<not> inputs_valid (form ''1'' ''-5'' ''0'' ''15000'' [])"
    by (simp add: spec_eval)
  have e: "error (compute example_env (form ''1'' ''-5'' ''0'' ''15000'' [])) = InvalidHolding"
    by (simp add: compute_error spec_eval)
  from validation_failure_reported[OF v, of example_env] show ?thesis
    using v e by (simp add: form_def)
qed

section \<open>Absence of the projection\<close>

lemma to_double_zero [simp]: "to_double sg 0 = Fin sg 0"
  by (simp add: to_double_def)

lemma js_Nil [simp]: "js [] = []"
  by (simp add: js_def)

lemma gt0_iff_not_eq0:
  "finite_nonneg x \<Longrightarrow> js_gt x (lit 0) = (\<not> js_eq x (lit 0))"
  by (cases x) (auto simp: finite_nonneg_def js_gt_def lit_def signed_def split: if_splits)

lemma Date_getTime_abc: "Date_getTime example_env (js ''abc'' @ js ''T00:00:00'') = NaN"
  by (simp add: Date_getTime_def isoLocalDateTime_def js_def example_env_def)

text \<open>
  C4, as the specification has it, fails: a target date that does not parse, such as
  \<open>abc\<close>, is not empty, so with a daily accrual above zero the three projection
  fields are stored, with zero projected days.
\<close>

theorem unparseable_date_counterexample:
  "Date_getTime example_env (js ''abc'' @ js ''T00:00:00'') = NaN \<and>
   inputs_valid (form ''1'' ''1'' ''1'' ''1'' ''abc'') \<and>
   result (compute example_env (form ''1'' ''1'' ''1'' ''1'' ''abc'')) =
     Some \<lparr>totalUSDT = lit 1, totalIDR = lit 1, projectedUSDT = Some (lit 1),
           projectedIDR = Some (lit 1), daysProjected = Some (lit 0)\<rparr> \<and>
   \<not> projection_absent
         \<lparr>totalUSDT = lit 1, totalIDR = lit 1, projectedUSDT = Some (lit 1),
           projectedIDR = Some (lit 1), daysProjected = Some (lit 0)\<rparr>"
proof -
  have v: "inputs_valid (form ''1'' ''1'' ''1'' ''1'' ''abc'')"
    by (simp add: spec_eval)
  have d: "endDate (form ''1'' ''1'' ''1'' ''1'' ''abc'') = js ''abc''"
    by (simp add: form_def)
  have "result (compute example_env (form ''1'' ''1'' ''1'' ''1'' ''abc'')) =
     Some \<lparr>totalUSDT = lit 1, totalIDR = lit 1, projectedUSDT = Some (lit 1),
           projectedIDR = Some (lit 1), daysProjected = Some (lit 0)\<rparr>"
    unfolding compute_def Let_def d Date_getTime_abc
    by (simp add: spec_eval js_sub_def js_gt_def js_le_def) (simp add: js_def)
  then show ?thesis using v Date_getTime_abc by (simp add: projection_absent_def)
qed

text \<open>
  C4, amended: when the four inputs pass validation, no message is set whatever the
  accrual and the date are, and the result has none of the projection fields exactly
  when the daily accrual is zero or the target date string is empty; it has all three
  exactly when the accrual is above zero and the string is not empty.
\<close>

theorem projection_absent_iff:
  assumes "inputs_valid s"
  shows "\<exists>r. result (compute e s) = Some r \<and> error (compute e s) = [] \<and>
             (projection_absent r \<longleftrightarrow>
                js_eq (parseNumber (dailyCoins s)) (lit 0) \<or> endDate s = []) \<and>
             (projection_present r \<longleftrightarrow>
                js_gt (parseNumber (dailyCoins s)) (lit 0) \<and> endDate s \<noteq> [])"
proof -
  from assms have d: "finite_nonneg (parseNumber (dailyCoins s))" by (simp add: inputs_valid_def)
  show ?thesis
    using assms unfolding compute_def Let_def check_nonneg check_pos inputs_valid_def
    by (simp add: projection_absent_def projection_present_def gt0_iff_not_eq0[OF d])
qed

text \<open>No accrual with a date, and an accrual without a date: no projection fields.\<close>

theorem projection_absent_iff_witness:
  "inputs_valid (form ''2'' ''1000'' ''0'' ''15000'' ''2026-12-02'') \<and>
   (\<exists>r. result (compute example_env (form ''2'' ''1000'' ''0'' ''15000'' ''2026-12-02'')) = Some r \<and>
        error (compute example_env (form ''2'' ''1000'' ''0'' ''15000'' ''2026-12-02'')) = [] \<and>
        projection_absent r) \<and>
   inputs_valid (form ''2'' ''1000'' ''3'' ''15000'' []) \<and>
   (\<exists>r. result (compute example_env (form ''2'' ''1000'' ''3'' ''15000'' [])) = Some r \<and>
        error (compute example_env (form ''2'' ''1000'' ''3'' ''15000'' [])) = [] \<and>
        projection_absent r)"
proof -
  have v1: "inputs_valid (form ''2'' ''1000'' ''0'' ''15000'' ''2026-12-02'')"
    by (simp add: spec_eval)
  have v2: "inputs_valid (form ''2'' ''1000'' ''3'' ''15000'' [])"
    by (simp add: spec_eval)
  from projection_absent_iff[OF v1, of example_env] projection_absent_iff[OF v2, of example_env]
  show ?thesis using v1 v2 by (auto simp: spec_eval)
qed

section \<open>The two files\<close>

lemma parseNumber_v2_eq: "parseNumber_v2 = parseNumber"
  by (rule ext) (simp add: parseNumber_v2_def parseNumber_def)

lemma compute_v2_truncate:
  "calc_state.truncate (compute_v2 e s) = compute e (calc_state.truncate s)"
  unfolding compute_v2_def compute_def currentValues_def parseNumber_v2_eq Let_def
    InvalidPrice_def InvalidHolding_def InvalidAccrual_def InvalidRate_def
  by (simp add: calc_state.truncate_def)


lemma compute_v2_error: "error (compute_v2 e s) = error (compute e (calc_state.truncate s))"
  using compute_v2_truncate[of e s, THEN arg_cong, of error]
  by (simp add: calc_state.truncate_def)

lemma compute_v2_result: "result (compute_v2 e s) = result (compute e (calc_state.truncate s))"
  using compute_v2_truncate[of e s, THEN arg_cong, of result]
  by (simp add: calc_state.truncate_def)

text \<open>
  So what is proved of \<open>compute\<close> holds of the second file too: it sets the same
  message and stores the same result on the same inputs.
\<close>

lemma inputs_valid_truncate: "inputs_valid (calc_state.truncate s) = inputs_valid s"
  by (simp add: inputs_valid_def calc_state.truncate_def)

lemma compute_v2_invalid:
  assumes "\<not> inputs_valid s"
  shows "result (compute_v2 e s) = result s \<and> error (compute_v2 e s) \<noteq> []"
proof -
  have v: "\<not> inputs_valid (calc_state.truncate s)"
    using assms by (simp add: inputs_valid_truncate)
  have "error (compute e (calc_state.truncate s)) \<noteq> []"
    using v msgs_ne by (auto simp: compute_error inputs_valid_def)
  then show ?thesis
    using compute_invalid_result[OF v, of e]
    by (simp add: compute_v2_error compute_v2_result calc_state.truncate_def)
qed

text \<open>
  The pause is 800 milliseconds in both files unless the second is in performance
  mode.
\<close>

lemma compute_delay_v2_eq:
  "compute_delay_v2 s = (if isPerformanceMode s then 150 else compute_delay (calc_state.truncate s))"
  by (simp add: compute_delay_v2_def compute_delay_def)


section \<open>The input normaliser\<close>

lemma replaceCommas_idem: "replaceCommas (replaceCommas v) = replaceCommas v"
  by (simp add: replaceCommas_def)

lemma Number_empty: "Number [] = lit 0"
  by (simp add: Number_def trim_def)

lemma trim_whitespace:
  assumes "\<forall>c\<in>set v. isStrWhiteSpaceChar c"
  shows "trim v = []"
proof -
  have d: "dropWhile isStrWhiteSpaceChar v = []"
    using assms by (simp only: dropWhile_eq_Nil_conv)
  show ?thesis unfolding trim_def d by simp
qed

lemma replaceCommas_whitespace:
  "\<forall>c\<in>set v. isStrWhiteSpaceChar c \<Longrightarrow> replaceCommas v = v"
  unfolding replaceCommas_def
  by (rule filter_True) (auto simp: isStrWhiteSpaceChar_def)

lemma parseNumber_whitespace:
  assumes "\<forall>c\<in>set v. isStrWhiteSpaceChar c"
  shows "parseNumber v = lit 0"
  by (simp add: parseNumber_def replaceCommas_whitespace[OF assms] trim_whitespace[OF assms]
      Number_empty lit_def)

lemma parseNumber_replaceCommas: "parseNumber (replaceCommas v) = parseNumber v"
proof (cases "replaceCommas v = []")
  case True
  then have "parseNumber v = lit 0"
    by (simp add: parseNumber_def Number_empty trim_def lit_def)
  then show ?thesis using True by (simp add: parseNumber_def)
next
  case False
  then have "v \<noteq> []" by (auto simp: replaceCommas_def)
  then show ?thesis using False by (simp add: parseNumber_def replaceCommas_idem)
qed

lemma parse_Infinity: "parseNumber (js ''Infinity'') = NaN"
  by (simp add: parse_eval)

lemma parse_bad_exponent: "parseNumber (js ''1e'') = NaN"
  by (simp add: parse_eval)

lemma parse_grouped: "parseNumber (js ''1,000'') = lit 1000"
  by (simp add: parse_eval)

lemma parse_blank: "\<forall>c\<in>set (js ''  ''). isStrWhiteSpaceChar c"
  by (simp add: js_def isStrWhiteSpaceChar_def)

text \<open>
  C6: \<open>parseNumber\<close> is a function of its argument alone. On the empty string and on
  a string of white space only it is zero. On any other string it removes the commas,
  trims, converts with \<open>Number\<close>, and returns the conversion when it is finite and NaN
  when it is not; it never returns an infinity, and NaN is not zero. The empty string
  gives zero; \<open>abc\<close>, \<open>Infinity\<close> and \<open>1e\<close> give NaN. Removing the commas from a
  string beforehand does not change its value.
\<close>

theorem parseNumber_contract:
  "((\<forall>c\<in>set v. isStrWhiteSpaceChar c) \<longrightarrow> parseNumber v = lit 0) \<and>
   (v \<noteq> [] \<longrightarrow>
      parseNumber v =
        (if isFinite (Number (trim (replaceCommas v))) then Number (trim (replaceCommas v))
         else NaN)) \<and>
   (isFinite (parseNumber v) \<or> parseNumber v = NaN) \<and>
   \<not> js_eq NaN (lit 0) \<and> NaN \<noteq> lit 0 \<and>
   parseNumber [] = lit 0 \<and>
   parseNumber (js ''abc'') = NaN \<and>
   parseNumber (js ''Infinity'') = NaN \<and>
   parseNumber (js ''1e'') = NaN \<and>
   parseNumber (replaceCommas v) = parseNumber v"
proof -
  have "isFinite (parseNumber v) \<or> parseNumber v = NaN"
    using parseNumber_cases[of v] by auto
  moreover have "parseNumber [] = lit 0" by (simp add: parseNumber_def)
  ultimately show ?thesis
    using parseNumber_whitespace[of v] parseNumber_replaceCommas[of v]
    by (simp add: parse_abc parse_Infinity parse_bad_exponent lit_def)
      (simp add: parseNumber_def Let_def)
qed

text \<open>Two blanks give zero, and \<open>1,000\<close> is \<open>1000\<close>.\<close>

theorem parseNumber_contract_witness:
  "js ''  '' = [0x20, 0x20] \<and> isStrWhiteSpaceChar 0x20 \<and> parseNumber (js ''  '') = lit 0 \<and>
   js ''1,000'' \<noteq> [] \<and> parseNumber (js ''1,000'') = lit 1000 \<and>
   replaceCommas (js ''1,000'') = js ''1000'' \<and>
   parseNumber (js ''1000'') = parseNumber (js ''1,000'')"
  using parseNumber_contract[of "js ''  ''"] parseNumber_contract[of "js ''1,000''"]
    parse_blank parse_grouped parse_1000
  by (simp add: js_def replaceCommas_def isStrWhiteSpaceChar_def)

section \<open>The projection\<close>

lemma msPerDay_eq:
  "js_mul (js_mul (js_mul (lit 1000) (lit 60)) (lit 60)) (lit 24) = lit 86400000"
  by (simp add: lit_def)

lemma to_double_cases:
  assumes "0 \<le> m"
  shows "to_double sg m = Inf sg \<or> (\<exists>r. 0 \<le> r \<and> to_double sg m = Fin sg r)"
  using rnd_nonneg[OF assms] by (auto simp: to_double_def Let_def)

lemma TimeClip_cases:
  "TimeClip x = NaN \<or>
   (\<exists>sg k. 0 \<le> k \<and> k \<le> 8640000000000000 \<and> TimeClip x = Fin sg (of_int k))"
proof (cases x)
  case (Fin sg m)
  show ?thesis
  proof (cases "8640000000000000 < \<bar>m\<bar>")
    case True
    then show ?thesis using Fin by simp
  next
    case False
    then have "\<lfloor>\<bar>m\<bar>\<rfloor> \<le> 8640000000000000" by (simp add: floor_le_iff)
    moreover have "0 \<le> \<lfloor>\<bar>m\<bar>\<rfloor>" by simp
    ultimately show ?thesis using Fin False by auto
  qed
qed simp_all

lemma TimeClip_lit:
  "TimeClip (lit t) = (if 8640000000000000 < \<bar>t\<bar> then NaN else lit t)"
proof -
  have "(8640000000000000 < \<bar>of_int t :: rat\<bar>) = (8640000000000000 < \<bar>t\<bar>)"
    by (metis of_int_abs of_int_less_iff of_int_numeral)
  then show ?thesis by (auto simp: lit_def)
qed

lemma Date_getTime_cases:
  "Date_getTime e str = NaN \<or>
   (\<exists>sg k. 0 \<le> k \<and> k \<le> 8640000000000000 \<and> Date_getTime e str = Fin sg (of_int k))"
  unfolding Date_getTime_def using TimeClip_cases
  by (auto split: option.splits)

lemma setHours0_cases:
  "setHours0 e t = NaN \<or>
   (\<exists>sg k. 0 \<le> k \<and> k \<le> 8640000000000000 \<and> setHours0 e t = Fin sg (of_int k))"
  unfolding setHours0_def using TimeClip_cases by blast

text \<open>The quotient of the difference of two time values by a day is finite.\<close>

lemma diff_finite:
  assumes "0 \<le> k" "k \<le> 8640000000000000" "0 \<le> j" "j \<le> 8640000000000000"
  shows "\<exists>sg q. 0 \<le> q \<and>
           js_div (js_sub (Fin a (of_int k)) (Fin b (of_int j))) (lit 86400000) = Fin sg q"
proof -
  define v :: rat where "v = signed a (of_int k) + signed (\<not> b) (of_int j)"
  have "(of_int k :: rat) \<le> of_int 8640000000000000" "(of_int j :: rat) \<le> of_int 8640000000000000"
    using assms(2,4) by (simp_all only: of_int_le_iff)
  then have kb: "(of_int k :: rat) \<le> 8640000000000000" "(0::rat) \<le> of_int k"
    and jb: "(of_int j :: rat) \<le> 8640000000000000" "(0::rat) \<le> of_int j"
    using assms(1,3) by simp_all
  have "\<bar>v\<bar> \<le> 17280000000000000" using kb jb by (auto simp: v_def signed_def)
  also have "\<dots> \<le> (2::rat) powi 54" by simp
  finally have vb: "\<bar>v\<bar> \<le> 2 powi 54" .
  show ?thesis
  proof (cases "v = 0")
    case True
    then show ?thesis by (simp add: js_sub_def v_def[symmetric] lit_def)
  next
    case False
    from to_double_finite[of "\<bar>v\<bar>" 54 "v < 0"] vb
    obtain r where r: "to_double (v < 0) \<bar>v\<bar> = Fin (v < 0) r" "0 \<le> r" "r \<le> 2 powi 54"
      by auto
    have "r / 86400000 \<le> r" using r(2) by (simp add: field_simps)
    then have "r / 86400000 \<le> 2 powi 54" using r(3) by linarith
    moreover have "0 \<le> r / 86400000" using r(2) by simp
    ultimately obtain q where
      "to_double ((v < 0) \<noteq> False) (r / 86400000) = Fin ((v < 0) \<noteq> False) q" "0 \<le> q"
      using to_double_finite[of "r / 86400000" 54 "(v < 0) \<noteq> False"] by auto
    then show ?thesis using False r(1)
      by (auto simp: js_sub_def v_def[symmetric] lit_def Let_def)
  qed
qed

text \<open>The days that \<open>compute\<close> derives from a finite quotient.\<close>

lemma days_integer:
  assumes "0 \<le> q"
  shows "\<exists>n. 0 \<le> n \<and>
          (if js_gt (js_ceil (Fin sg q)) (lit 0) then js_ceil (Fin sg q) else lit 0) = lit n"
proof (cases "js_gt (js_ceil (Fin sg q)) (lit 0)")
  case True
  have "0 \<le> \<lfloor>q\<rfloor>" using assms by simp
  then have "\<not> (0::rat) < - of_int \<lfloor>q\<rfloor>" by simp
  then have nsg: "\<not> sg" using True by (cases sg) (simp_all add: js_gt_def lit_def signed_def)
  then have "0 < \<lceil>q\<rceil>" using True by (simp add: js_gt_def lit_def signed_def)
  then have "js_ceil (Fin sg q) = lit \<lceil>q\<rceil>" using nsg by (simp add: lit_def)
  then show ?thesis using True \<open>0 < \<lceil>q\<rceil>\<close> by (intro exI[of _ "\<lceil>q\<rceil>"]) simp
next
  case False
  then show ?thesis by (intro exI[of _ 0]) simp
qed

lemma days_max:
  assumes "0 \<le> q"
  shows "(if js_gt (js_ceil (Fin sg q)) (lit 0) then js_ceil (Fin sg q) else lit 0) =
         js_max (js_ceil (Fin sg q)) (lit 0)"
proof -
  define f where "f = (if sg then \<lfloor>q\<rfloor> else \<lceil>q\<rceil>)"
  have f0: "0 \<le> f" using assms by (simp add: f_def)
  have c: "js_ceil (Fin sg q) = Fin sg (of_int f)" by (simp add: f_def)
  show ?thesis
  proof (cases "f = 0")
    case True
    then show ?thesis unfolding c by (simp add: js_max_def js_gt_def lit_def signed_def)
  next
    case False
    then have "0 < f" using f0 by simp
    then show ?thesis unfolding c by (simp add: js_max_def js_gt_def lit_def signed_def)
  qed
qed

text \<open>A target that is not after today gives no positive difference.\<close>

lemma not_later_no_days:
  assumes "js_le (Fin a (of_int k)) (Fin b (of_int j))" "0 \<le> k" "0 \<le> j"
  shows "\<not> js_gt (js_ceil (js_div (js_sub (Fin a (of_int k)) (Fin b (of_int j)))
                      (lit 86400000))) (lit 0)"
proof -
  define v :: rat where "v = signed a (of_int k) + signed (\<not> b) (of_int j)"
  have vle: "v \<le> 0" using assms(1) by (auto simp: v_def js_le_def signed_def split: if_splits)
  have sub0: "js_sub (Fin a (of_int k)) (Fin b (of_int j)) =
              (if v = 0 then Fin (a \<and> \<not> b) 0 else to_double (v < 0) \<bar>v\<bar>)"
    by (simp add: js_sub_def v_def Let_def)
  show ?thesis
  proof (cases "v = 0")
    case True
    then show ?thesis unfolding sub0
      by (simp add: lit_def js_gt_def signed_def)
  next
    case False
    then have neg: "v < 0" using vle by simp
    have sub: "js_sub (Fin a (of_int k)) (Fin b (of_int j)) = to_double True \<bar>v\<bar>"
      unfolding sub0 using neg False by simp
    from to_double_cases[of "\<bar>v\<bar>" True]
    consider "to_double True \<bar>v\<bar> = Inf True"
      | r where "0 \<le> r" "to_double True \<bar>v\<bar> = Fin True r" by auto
    then show ?thesis
    proof cases
      case 1
      then show ?thesis by (simp add: sub lit_def js_gt_def)
    next
      case 2
      from to_double_cases[of "r / 86400000" True] 2(1)
      consider "to_double True (r / 86400000) = Inf True"
        | r' where "0 \<le> r'" "to_double True (r / 86400000) = Fin True r'" by auto
      then show ?thesis
      proof cases
        case 1
        then show ?thesis using 2 by (simp add: sub lit_def js_gt_def)
      next
        case (2 r')
        then show ?thesis using \<open>to_double True \<bar>v\<bar> = Fin True r\<close>
          by (simp add: sub lit_def js_gt_def signed_def)
      qed
    qed
  qed
qed

text \<open>Multiplication commutes, and respects equality of values.\<close>

lemma js_mul_commute: "js_mul x y = js_mul y x"
  by (cases x; cases y) (auto simp: mult.commute intro!: arg_cong2[where f = to_double])

lemma to_double_not_NaN: "to_double sg m \<noteq> NaN"
  by (simp add: to_double_def Let_def)

lemma js_eq_refl: "x \<noteq> NaN \<Longrightarrow> js_eq x x"
  by (cases x) simp_all

lemma js_mul_finite_not_NaN: "js_mul (Fin a m) (Fin b n) \<noteq> NaN"
  by (simp add: to_double_not_NaN)

lemma js_mul_pos_not_NaN: "x \<noteq> NaN \<Longrightarrow> rm \<noteq> 0 \<Longrightarrow> js_mul x (Fin b rm) \<noteq> NaN"
  by (cases x) (simp_all add: to_double_not_NaN)

text \<open>With zero projected days the projected holding has the value of the holding.\<close>

lemma zero_days_holding:
  assumes "is_double (Fin c n)" "0 \<le> signed c n"
  shows "\<exists>c'. js_add (Fin c n) (js_mul (Fin a m) (lit 0)) = Fin c' n \<and> (n \<noteq> 0 \<longrightarrow> c' = c)"
proof (cases "n = 0")
  case True
  then show ?thesis by (auto simp: lit_def signed_def)
next
  case False
  then have c: "\<not> c" "0 < n" using assms by (auto simp: signed_def split: if_splits)
  have "to_double False n = Fin False n" using assms(1) by (rule to_double_fixed)
  then show ?thesis using c False by (auto simp: lit_def signed_def Let_def)
qed

lemma zero_days_base:
  assumes "is_double (Fin c n)" "0 \<le> signed c n"
  shows "js_eq (js_mul (js_add (Fin c n) (js_mul (Fin a m) (lit 0))) (Fin p pm))
               (js_mul (Fin p pm) (Fin c n))"
proof -
  from zero_days_holding[OF assms, of a m] obtain c' where
    h: "js_add (Fin c n) (js_mul (Fin a m) (lit 0)) = Fin c' n" "n \<noteq> 0 \<longrightarrow> c' = c" by blast
  show ?thesis
  proof (cases "n = 0")
    case True
    then show ?thesis unfolding h(1) by (simp add: signed_def)
  next
    case False
    then have cc: "c' = c" using h(2) by simp
    have "js_eq (js_mul (Fin c n) (Fin p pm)) (js_mul (Fin c n) (Fin p pm))"
      by (rule js_eq_refl[OF js_mul_finite_not_NaN])
    then show ?thesis unfolding h(1) cc js_mul_commute[of "Fin p pm"] .
  qed
qed

lemma zero_days_fiat:
  assumes "is_double (Fin c n)" "0 \<le> signed c n" "rm \<noteq> 0"
  shows "js_eq (js_mul (js_mul (js_add (Fin c n) (js_mul (Fin a m) (lit 0))) (Fin p pm))
                  (Fin r rm))
               (js_mul (js_mul (Fin p pm) (Fin c n)) (Fin r rm))"
proof -
  from zero_days_holding[OF assms(1,2), of a m] obtain c' where
    h: "js_add (Fin c n) (js_mul (Fin a m) (lit 0)) = Fin c' n" "n \<noteq> 0 \<longrightarrow> c' = c" by blast
  show ?thesis
  proof (cases "n = 0")
    case True
    then show ?thesis unfolding h(1) by (simp add: signed_def)
  next
    case False
    then have cc: "c' = c" using h(2) by simp
    have "js_eq (js_mul (js_mul (Fin c n) (Fin p pm)) (Fin r rm))
                (js_mul (js_mul (Fin c n) (Fin p pm)) (Fin r rm))"
      by (rule js_eq_refl[OF js_mul_pos_not_NaN[OF js_mul_finite_not_NaN assms(3)]])
    then show ?thesis unfolding h(1) cc js_mul_commute[of "Fin p pm"] .
  qed
qed

lemma compute_projection_result:
  assumes "inputs_valid s" "js_gt (parseNumber (dailyCoins s)) (lit 0)" "endDate s \<noteq> []"
    and "diff = js_ceil (js_div (js_sub (Date_getTime e (endDate s @ js ''T00:00:00''))
                                       (setHours0 e (now e))) (lit 86400000))"
    and "days = (if js_gt diff (lit 0) then diff else lit 0)"
  shows "result (compute e s) =
     Some \<lparr>totalUSDT = js_mul (parseNumber (pricePerCoin s)) (parseNumber (currentCoins s)),
           totalIDR = js_mul (js_mul (parseNumber (pricePerCoin s)) (parseNumber (currentCoins s)))
                        (parseNumber (usdToIdr s)),
           projectedUSDT =
             Some (js_mul (js_add (parseNumber (currentCoins s))
                                  (js_mul (parseNumber (dailyCoins s)) days))
                          (parseNumber (pricePerCoin s))),
           projectedIDR =
             Some (js_mul (js_mul (js_add (parseNumber (currentCoins s))
                                          (js_mul (parseNumber (dailyCoins s)) days))
                                  (parseNumber (pricePerCoin s)))
                          (parseNumber (usdToIdr s))),
           daysProjected = Some days\<rparr>"
  using assms unfolding compute_def Let_def check_nonneg check_pos msPerDay_eq inputs_valid_def
  by simp

lemma setHours0_finite:
  assumes "isFinite (setHours0 e t)"
  shows "setHours0 e t = lit (UTC e (Day (LocalTime e t) * 86400000))"
  using assms unfolding setHours0_def MakeDate_def MakeTime_def TimeClip_lit
  by (simp split: if_splits)

lemma length_suffix: "length (js ''T00:00:00'') = 9"
  by (simp add: js_def)

lemma iso_midnight:
  assumes "isoLocalDateTime (x @ js ''T00:00:00'') = Some (y, m, d, h, mi, sec)"
  shows "h = 0 \<and> mi = 0 \<and> sec = 0"
proof -
  from assms have "length (x @ js ''T00:00:00'') = 19"
    unfolding isoLocalDateTime_def by (simp split: if_splits)
  then have lx: "length x = 10" by (simp add: length_suffix)
  have "take 2 (drop 11 (x @ js ''T00:00:00'')) = [0x30, 0x30]"
       "take 2 (drop 14 (x @ js ''T00:00:00'')) = [0x30, 0x30]"
       "take 2 (drop 17 (x @ js ''T00:00:00'')) = [0x30, 0x30]"
    using lx by (simp_all add: js_def)
  moreover have "Digits 10 [0x30, 0x30] = Some 0"
    by (simp add: Digits_def digitValue_def)
  ultimately show ?thesis using assms
    unfolding isoLocalDateTime_def
    by (auto split: if_splits option.splits)
qed

lemma Date_getTime_iso:
  assumes "isoLocalDateTime (x @ js ''T00:00:00'') = Some (y, m, d, h, mi, sec)"
    and "isFinite (Date_getTime e (x @ js ''T00:00:00''))"
  shows "Date_getTime e (x @ js ''T00:00:00'') = lit (UTC e (MakeDay y m d * 86400000))"
proof -
  from iso_midnight[OF assms(1)] have z: "h = 0" "mi = 0" "sec = 0" by simp_all
  show ?thesis
    using assms(2) unfolding Date_getTime_def assms(1) z MakeDate_def MakeTime_def TimeClip_lit
    by (simp split: if_splits)
qed


section \<open>The projection on concrete dates\<close>

lemmas date_eval =
  Date_getTime_def isoLocalDateTime_def js_def Digits_def digitValue_def DaysInMonth_def
  InLeapYear_def MakeDay_def DayFromYear_def MakeDate_def MakeTime_def UTC_def LocalTime_def
  Day_def example_env_def TimeClip_lit setHours0_def upto_rec1

lemma today_example: "setHours0 example_env (now example_env) = lit 1793552400000"
  by (simp add: date_eval)

lemma iso_december:
  "isoLocalDateTime (js ''2026-12-02'' @ js ''T00:00:00'') = Some (2026, 12, 2, 0, 0, 0)"
  by (simp add: date_eval)

lemma target_december:
  "Date_getTime example_env (js ''2026-12-02'' @ js ''T00:00:00'') = lit 1796144400000"
  by (simp add: date_eval)

lemma target_november:
  "Date_getTime example_env (js ''2026-11-01'' @ js ''T00:00:00'') = lit 1793466000000"
  by (simp add: date_eval)

lemma days_december: "spec_daysProjected (lit 1796144400000) (lit 1793552400000) = lit 30"
  by (simp add: spec_daysProjected_def js_max_def js_sub_def lit_def signed_def)


section \<open>The projected values\<close>

text \<open>
  C3: with valid inputs, a daily accrual above zero and a target date that is not
  empty, the result has the three projection fields: the days are a non-negative
  integer, the projected base value is \<open>(holding + dailyAccrual * days) * price\<close> and
  the projected fiat value is that times the rate. When the target date parses and
  the local midnight of the clock is a valid time value, the days are
  \<open>max(ceil((targetMidnight - todayMidnight) / 86400000), 0)\<close> in binary64
  arithmetic, where the time subtracted is the start of the local day of now; and a
  target in the date form that parses is the start of the local day it names.
\<close>

theorem projection_computed:
  assumes "inputs_valid s" "js_gt (parseNumber (dailyCoins s)) (lit 0)" "endDate s \<noteq> []"
  shows "\<exists>r days.
           result (compute e s) = Some r \<and>
           daysProjected r = Some days \<and>
           (\<exists>n. 0 \<le> n \<and> days = lit n) \<and>
           projectedUSDT r =
             Some (js_mul (js_add (parseNumber (currentCoins s))
                                  (js_mul (parseNumber (dailyCoins s)) days))
                          (parseNumber (pricePerCoin s))) \<and>
           projectedIDR r =
             Some (js_mul (js_mul (js_add (parseNumber (currentCoins s))
                                          (js_mul (parseNumber (dailyCoins s)) days))
                                  (parseNumber (pricePerCoin s)))
                          (parseNumber (usdToIdr s))) \<and>
           (isFinite (Date_getTime e (endDate s @ js ''T00:00:00'')) \<and>
            isFinite (setHours0 e (now e)) \<longrightarrow>
              days = spec_daysProjected (Date_getTime e (endDate s @ js ''T00:00:00''))
                       (setHours0 e (now e)) \<and>
              setHours0 e (now e) = lit (UTC e (Day (LocalTime e (now e)) * 86400000))) \<and>
           (\<forall>y m d h mi sec.
              isoLocalDateTime (endDate s @ js ''T00:00:00'') = Some (y, m, d, h, mi, sec) \<and>
              isFinite (Date_getTime e (endDate s @ js ''T00:00:00'')) \<longrightarrow>
              h = 0 \<and> mi = 0 \<and> sec = 0 \<and>
              Date_getTime e (endDate s @ js ''T00:00:00'') =
                lit (UTC e (MakeDay y m d * 86400000)))"
proof -
  define target where "target = Date_getTime e (endDate s @ js ''T00:00:00'')"
  define today where "today = setHours0 e (now e)"
  define quot where "quot = js_div (js_sub target today) (lit 86400000)"
  define days where "days = (if js_gt (js_ceil quot) (lit 0) then js_ceil quot else lit 0)"
  have tc: "target = NaN \<or>
      (\<exists>a k. 0 \<le> k \<and> k \<le> 8640000000000000 \<and> target = Fin a (of_int k))"
    unfolding target_def by (rule Date_getTime_cases)
  have dc: "today = NaN \<or>
      (\<exists>b j. 0 \<le> j \<and> j \<le> 8640000000000000 \<and> today = Fin b (of_int j))"
    unfolding today_def by (rule setHours0_cases)
  have fin: "isFinite target \<and> isFinite today \<longrightarrow>
      days = spec_daysProjected target today \<and> (\<exists>n. 0 \<le> n \<and> days = lit n)"
  proof
    assume f: "isFinite target \<and> isFinite today"
    from tc f obtain a k where k: "0 \<le> k" "k \<le> 8640000000000000" "target = Fin a (of_int k)"
      by auto
    from dc f obtain b j where j: "0 \<le> j" "j \<le> 8640000000000000" "today = Fin b (of_int j)"
      by auto
    from diff_finite[OF k(1,2) j(1,2), of a b]
    obtain sg q where q: "0 \<le> q" "quot = Fin sg q"
      unfolding quot_def k(3) j(3) by blast
    have "days = spec_daysProjected target today"
      unfolding days_def spec_daysProjected_def quot_def[symmetric] q(2)
      by (rule days_max[OF q(1)])
    moreover have "\<exists>n. 0 \<le> n \<and> days = lit n"
      unfolding days_def q(2) by (rule days_integer[OF q(1)])
    ultimately show "days = spec_daysProjected target today \<and> (\<exists>n. 0 \<le> n \<and> days = lit n)"
      by simp
  qed
  have int: "\<exists>n. 0 \<le> n \<and> days = lit n"
  proof (cases "isFinite target \<and> isFinite today")
    case True
    then show ?thesis using fin by blast
  next
    case False
    then have "target = NaN \<or> today = NaN" using tc dc by auto
    then have "quot = NaN"
      unfolding quot_def js_sub_def by (cases target; cases today) auto
    then have "days = lit 0" by (simp add: days_def js_gt_def lit_def)
    then show ?thesis by (intro exI[of _ 0]) simp
  qed
  have res: "result (compute e s) =
     Some \<lparr>totalUSDT = js_mul (parseNumber (pricePerCoin s)) (parseNumber (currentCoins s)),
           totalIDR = js_mul (js_mul (parseNumber (pricePerCoin s)) (parseNumber (currentCoins s)))
                        (parseNumber (usdToIdr s)),
           projectedUSDT =
             Some (js_mul (js_add (parseNumber (currentCoins s))
                                  (js_mul (parseNumber (dailyCoins s)) days))
                          (parseNumber (pricePerCoin s))),
           projectedIDR =
             Some (js_mul (js_mul (js_add (parseNumber (currentCoins s))
                                          (js_mul (parseNumber (dailyCoins s)) days))
                                  (parseNumber (pricePerCoin s)))
                          (parseNumber (usdToIdr s))),
           daysProjected = Some days\<rparr>"
    unfolding days_def quot_def target_def today_def
    by (rule compute_projection_result[OF assms(1-3) refl refl])
  have td: "isFinite today \<longrightarrow> today = lit (UTC e (Day (LocalTime e (now e)) * 86400000))"
    unfolding today_def using setHours0_finite by blast
  have iso: "\<forall>y m d h mi sec.
              isoLocalDateTime (endDate s @ js ''T00:00:00'') = Some (y, m, d, h, mi, sec) \<and>
              isFinite target \<longrightarrow>
              h = 0 \<and> mi = 0 \<and> sec = 0 \<and> target = lit (UTC e (MakeDay y m d * 86400000))"
    unfolding target_def using iso_midnight Date_getTime_iso by blast
  show ?thesis
    using res int fin td iso unfolding target_def today_def by simp
qed

text \<open>Thirty days ahead: 1000 coins and 3 a day make 1090 coins.\<close>

theorem projection_computed_witness:
  "inputs_valid (form ''2'' ''1000'' ''3'' ''15000'' ''2026-12-02'') \<and>
   js_gt (parseNumber (dailyCoins (form ''2'' ''1000'' ''3'' ''15000'' ''2026-12-02''))) (lit 0) \<and>
   endDate (form ''2'' ''1000'' ''3'' ''15000'' ''2026-12-02'') \<noteq> [] \<and>
   Date_getTime example_env (js ''2026-12-02'' @ js ''T00:00:00'') = lit 1796144400000 \<and>
   setHours0 example_env (now example_env) = lit 1793552400000 \<and>
   isoLocalDateTime (js ''2026-12-02'' @ js ''T00:00:00'') = Some (2026, 12, 2, 0, 0, 0) \<and>
   UTC example_env (MakeDay 2026 12 2 * 86400000) = 1796144400000 \<and>
   UTC example_env (Day (LocalTime example_env (now example_env)) * 86400000) = 1793552400000 \<and>
   (\<exists>r. result (compute example_env (form ''2'' ''1000'' ''3'' ''15000'' ''2026-12-02'')) = Some r \<and>
        daysProjected r = Some (lit 30) \<and>
        projectedUSDT r = Some (lit 2180) \<and>
        projectedIDR r = Some (lit 32700000))"
proof -
  define s where "s = form ''2'' ''1000'' ''3'' ''15000'' ''2026-12-02''"
  have d: "endDate s = js ''2026-12-02''" by (simp add: s_def form_def)
  have h1: "inputs_valid s" by (simp add: s_def spec_eval)
  have h2: "js_gt (parseNumber (dailyCoins s)) (lit 0)"
    by (simp add: s_def spec_eval js_gt_def)
  have h3: "endDate s \<noteq> []" by (simp add: d js_def)
  have h4: "isFinite (Date_getTime example_env (endDate s @ js ''T00:00:00''))"
    by (simp add: d target_december lit_def)
  have h5: "isFinite (setHours0 example_env (now example_env))"
    by (simp add: today_example lit_def)
  from projection_computed[OF h1 h2 h3, of example_env] h4 h5 obtain r days where
    r: "result (compute example_env s) = Some r" "daysProjected r = Some days"
      "days = spec_daysProjected (Date_getTime example_env (endDate s @ js ''T00:00:00''))
                (setHours0 example_env (now example_env))"
      "projectedUSDT r =
         Some (js_mul (js_add (parseNumber (currentCoins s))
                              (js_mul (parseNumber (dailyCoins s)) days))
                      (parseNumber (pricePerCoin s)))"
      "projectedIDR r =
         Some (js_mul (js_mul (js_add (parseNumber (currentCoins s))
                                      (js_mul (parseNumber (dailyCoins s)) days))
                              (parseNumber (pricePerCoin s)))
                      (parseNumber (usdToIdr s)))"
    by blast
  have days: "days = lit 30" unfolding r(3) d target_december today_example by (rule days_december)
  have "projectedUSDT r = Some (lit 2180)" "projectedIDR r = Some (lit 32700000)"
    unfolding r(4,5) days by (simp_all add: s_def spec_eval)
  moreover have "UTC example_env (MakeDay 2026 12 2 * 86400000) = 1796144400000"
    "UTC example_env (Day (LocalTime example_env (now example_env)) * 86400000) = 1793552400000"
    by (simp_all add: date_eval)
  ultimately show ?thesis
    using h1 h2 h3 r(1,2) days target_december today_example iso_december
    unfolding s_def by simp
qed


section \<open>A target that is not after today\<close>

text \<open>
  C5: with valid inputs, a daily accrual above zero and a target date that parses to a
  midnight not after today's, the projection is stored all the same, with zero days,
  a projected base value equal to the base total and a projected fiat value equal to
  the fiat total.
\<close>

theorem past_target_floor:
  assumes "inputs_valid s" "js_gt (parseNumber (dailyCoins s)) (lit 0)" "endDate s \<noteq> []"
    and "js_le (Date_getTime e (endDate s @ js ''T00:00:00'')) (setHours0 e (now e))"
  shows "\<exists>r pu pidr.
           result (compute e s) = Some r \<and> projection_present r \<and>
           daysProjected r = Some (lit 0) \<and>
           projectedUSDT r = Some pu \<and> js_eq pu (totalUSDT r) \<and>
           projectedIDR r = Some pidr \<and> js_eq pidr (totalIDR r)"
proof -
  define target where "target = Date_getTime e (endDate s @ js ''T00:00:00'')"
  define today where "today = setHours0 e (now e)"
  have le: "js_le target today" using assms(4) by (simp add: target_def today_def)
  then have "target \<noteq> NaN" "today \<noteq> NaN"
    by (cases target; cases today; simp add: js_le_def)+
  with Date_getTime_cases[of e "endDate s @ js ''T00:00:00''"] setHours0_cases[of e "now e"]
  obtain a k b j where k: "0 \<le> k" "target = Fin a (of_int k)"
    and j: "0 \<le> j" "today = Fin b (of_int j)"
    unfolding target_def today_def by auto
  have nd: "\<not> js_gt (js_ceil (js_div (js_sub target today) (lit 86400000))) (lit 0)"
    using not_later_no_days[of a k b j] le k j by simp
  have res: "result (compute e s) =
     Some \<lparr>totalUSDT = js_mul (parseNumber (pricePerCoin s)) (parseNumber (currentCoins s)),
           totalIDR = js_mul (js_mul (parseNumber (pricePerCoin s)) (parseNumber (currentCoins s)))
                        (parseNumber (usdToIdr s)),
           projectedUSDT =
             Some (js_mul (js_add (parseNumber (currentCoins s))
                                  (js_mul (parseNumber (dailyCoins s)) (lit 0)))
                          (parseNumber (pricePerCoin s))),
           projectedIDR =
             Some (js_mul (js_mul (js_add (parseNumber (currentCoins s))
                                          (js_mul (parseNumber (dailyCoins s)) (lit 0)))
                                  (parseNumber (pricePerCoin s)))
                          (parseNumber (usdToIdr s))),
           daysProjected = Some (lit 0)\<rparr>"
    by (rule compute_projection_result[OF assms(1-3) refl])
       (use nd in \<open>simp add: target_def today_def\<close>)
  from assms(1) parseNumber_cases[of "currentCoins s"]
  obtain c n where c: "parseNumber (currentCoins s) = Fin c n" "is_double (Fin c n)"
    "0 \<le> signed c n"
    by (auto simp: inputs_valid_def finite_nonneg_def)
  from assms(1) obtain p pm where p: "parseNumber (pricePerCoin s) = Fin p pm"
    by (auto simp: inputs_valid_def finite_nonneg_def split: number.splits)
  from assms(1) obtain dd dm where d: "parseNumber (dailyCoins s) = Fin dd dm"
    by (auto simp: inputs_valid_def finite_nonneg_def split: number.splits)
  from assms(1) obtain rs rm where r: "parseNumber (usdToIdr s) = Fin rs rm" "rm \<noteq> 0"
    by (auto simp: inputs_valid_def finite_pos_def signed_def split: number.splits if_splits)
  show ?thesis
    unfolding res c(1) p d r(1)
    using zero_days_base[OF c(2,3), of dd dm p pm] zero_days_fiat[OF c(2,3) r(2), of dd dm p pm rs]
    by (simp add: projection_present_def)
qed

text \<open>A target of yesterday.\<close>

theorem past_target_floor_witness:
  "inputs_valid (form ''2'' ''1000'' ''3'' ''15000'' ''2026-11-01'') \<and>
   js_gt (parseNumber (dailyCoins (form ''2'' ''1000'' ''3'' ''15000'' ''2026-11-01''))) (lit 0) \<and>
   endDate (form ''2'' ''1000'' ''3'' ''15000'' ''2026-11-01'') \<noteq> [] \<and>
   js_le (Date_getTime example_env (js ''2026-11-01'' @ js ''T00:00:00''))
         (setHours0 example_env (now example_env)) \<and>
   (\<exists>r pu pidr.
      result (compute example_env (form ''2'' ''1000'' ''3'' ''15000'' ''2026-11-01'')) = Some r \<and>
      projection_present r \<and> daysProjected r = Some (lit 0) \<and>
      projectedUSDT r = Some pu \<and> js_eq pu (totalUSDT r) \<and>
      projectedIDR r = Some pidr \<and> js_eq pidr (totalIDR r))"
proof -
  define s where "s = form ''2'' ''1000'' ''3'' ''15000'' ''2026-11-01''"
  have d: "endDate s = js ''2026-11-01''" by (simp add: s_def form_def)
  have h1: "inputs_valid s" by (simp add: s_def spec_eval)
  have h2: "js_gt (parseNumber (dailyCoins s)) (lit 0)"
    by (simp add: s_def spec_eval js_gt_def)
  have h3: "endDate s \<noteq> []" by (simp add: d js_def)
  have h4: "js_le (Date_getTime example_env (endDate s @ js ''T00:00:00''))
                  (setHours0 example_env (now example_env))"
    unfolding d target_november today_example by (simp add: js_le_def lit_def signed_def)
  from past_target_floor[OF h1 h2 h3 h4] show ?thesis
    using h1 h2 h3 h4 unfolding s_def[symmetric] d by simp
qed

section \<open>The exchange rate\<close>















end
